theory Spec2Isabelle
  imports Complex_Main
begin

section \<open>Data model\<close>

text \<open>
  The program is an Entity-Component-System engine (\<^verbatim>\<open>src/index.js\<close>). Entities are
  JavaScript objects compared by identity (\<^verbatim>\<open>===\<close>, \<^verbatim>\<open>includes\<close>) and mutated in place, so
  an entity is a reference into an explicit store of objects; the slot sequence
  \<^verbatim>\<open>World.entities\<close> holds references or \<^verbatim>\<open>null\<close> (a tombstone). Numbers are modelled as
  reals, as the data model of the specification has them. A component object belongs to
  one entity (every assemblage builds fresh ones), so the components are kept by value
  inside the entity that owns them.
\<close>

type_synonym ref = nat

datatype component =
    PositionComponent real real
  | VelocityComponent real real
  | RenderableComponent "nat option"
  | RectangleComponent real real
  | InteractableComponent nat
  | BlasterComponent real
  | WhitelistComponent "ref list"
  | BoundaryComponent real real real real
  | RemovableAtBoundaryComponent
  | SpawnComponent real
  | CounterComponent int
  | UserCharacterComponent

text \<open>\<^verbatim>\<open>Entity.components\<close>: the ordered bag of component instances.\<close>

type_synonym entity = "component list"

type_synonym heap = "ref \<Rightarrow> entity"

type_synonym slots = "ref option list"

subsection \<open>\<^verbatim>\<open>Entity.getComponent\<close>: the first instance of a variant\<close>

fun getPosition :: "entity \<Rightarrow> (real \<times> real) option" where
  "getPosition [] = None"
| "getPosition (PositionComponent x y # cs) = Some (x, y)"
| "getPosition (c # cs) = getPosition cs"

fun getVelocity :: "entity \<Rightarrow> (real \<times> real) option" where
  "getVelocity [] = None"
| "getVelocity (VelocityComponent x y # cs) = Some (x, y)"
| "getVelocity (c # cs) = getVelocity cs"

fun getRectangle :: "entity \<Rightarrow> (real \<times> real) option" where
  "getRectangle [] = None"
| "getRectangle (RectangleComponent w h # cs) = Some (w, h)"
| "getRectangle (c # cs) = getRectangle cs"

fun getBoundary :: "entity \<Rightarrow> (real \<times> real \<times> real \<times> real) option" where
  "getBoundary [] = None"
| "getBoundary (BoundaryComponent x y w h # cs) = Some (x, y, w, h)"
| "getBoundary (c # cs) = getBoundary cs"

fun getWhitelist :: "entity \<Rightarrow> ref list option" where
  "getWhitelist [] = None"
| "getWhitelist (WhitelistComponent wl # cs) = Some wl"
| "getWhitelist (c # cs) = getWhitelist cs"

fun getRemovableAtBoundary :: "entity \<Rightarrow> unit option" where
  "getRemovableAtBoundary [] = None"
| "getRemovableAtBoundary (RemovableAtBoundaryComponent # cs) = Some ()"
| "getRemovableAtBoundary (c # cs) = getRemovableAtBoundary cs"

fun getSpawn :: "entity \<Rightarrow> real option" where
  "getSpawn [] = None"
| "getSpawn (SpawnComponent t # cs) = Some t"
| "getSpawn (c # cs) = getSpawn cs"

fun getCounter :: "entity \<Rightarrow> int option" where
  "getCounter [] = None"
| "getCounter (CounterComponent n # cs) = Some n"
| "getCounter (c # cs) = getCounter cs"

text \<open>
  Assignments to the fields of the object returned by \<^verbatim>\<open>getComponent\<close>: the first
  instance of the variant is replaced, the rest of the bag is untouched.
\<close>

fun setPosition :: "real \<times> real \<Rightarrow> entity \<Rightarrow> entity" where
  "setPosition p [] = []"
| "setPosition p (PositionComponent x y # cs) = PositionComponent (fst p) (snd p) # cs"
| "setPosition p (c # cs) = c # setPosition p cs"

fun setVelocity :: "real \<times> real \<Rightarrow> entity \<Rightarrow> entity" where
  "setVelocity v [] = []"
| "setVelocity v (VelocityComponent x y # cs) = VelocityComponent (fst v) (snd v) # cs"
| "setVelocity v (c # cs) = c # setVelocity v cs"

fun setSpawn :: "real \<Rightarrow> entity \<Rightarrow> entity" where
  "setSpawn t [] = []"
| "setSpawn t (SpawnComponent t0 # cs) = SpawnComponent t # cs"
| "setSpawn t (c # cs) = c # setSpawn t cs"

fun setCounter :: "int \<Rightarrow> entity \<Rightarrow> entity" where
  "setCounter n [] = []"
| "setCounter n (CounterComponent n0 # cs) = CounterComponent n # cs"
| "setCounter n (c # cs) = c # setCounter n cs"

section \<open>World\<close>

text \<open>
  \<^verbatim>\<open>World.addEntity\<close>: the loop \<^verbatim>\<open>for (let i = 0; i < this.entities.length; i++)\<close> returns
  at the first \<^verbatim>\<open>null\<close> slot after writing the entity there; falling out of the loop
  pushes the entity.
\<close>

function addEntity_loop :: "nat \<Rightarrow> ref \<Rightarrow> slots \<Rightarrow> slots" where
  "addEntity_loop i entity es =
     (if i < length es
      then (if es ! i = None then es[i := Some entity]
            else addEntity_loop (i + 1) entity es)
      else es @ [Some entity])"
  by pat_completeness auto
termination
  by (relation "measure (\<lambda>(i, entity, es). length es - i)") auto

declare addEntity_loop.simps [simp del]

definition addEntity :: "ref \<Rightarrow> slots \<Rightarrow> slots" where
  "addEntity entity es = addEntity_loop 0 entity es"

section \<open>Systems\<close>

subsection \<open>Systems that mutate the components of each entity\<close>

text \<open>
  \<^verbatim>\<open>entities.forEach((entity) => { if (entity === null) return; ... })\<close> where the callback
  only assigns to fields of the entity's own components: \<open>f\<close> is the effect of the
  callback on the entity object, and the store is updated at the slot's reference. A
  reference held by several slots is visited once per slot.
\<close>

definition forEach_entity :: "(entity \<Rightarrow> entity) \<Rightarrow> slots \<Rightarrow> heap \<Rightarrow> heap" where
  "forEach_entity f es h =
     fold (\<lambda>slot h. case slot of None \<Rightarrow> h | Some r \<Rightarrow> h(r := f (h r))) es h"

text \<open>\<^verbatim>\<open>MovementSystem.update\<close>: \<^verbatim>\<open>position.x += velocity.x; position.y += velocity.y\<close>.\<close>

definition MovementSystem_entity :: "entity \<Rightarrow> entity" where
  "MovementSystem_entity e =
     (case getPosition e of None \<Rightarrow> e
      | Some position \<Rightarrow>
          (case getVelocity e of None \<Rightarrow> e
           | Some velocity \<Rightarrow>
               setPosition (fst position + fst velocity, snd position + snd velocity) e))"

definition MovementSystem_update :: "slots \<Rightarrow> heap \<Rightarrow> heap" where
  "MovementSystem_update es h = forEach_entity MovementSystem_entity es h"

text \<open>
  \<^verbatim>\<open>BoundarySystem.update\<close>: four \<^verbatim>\<open>if\<close> statements in sequence (left, top, right,
  bottom), each reading the position as the earlier ones left it.
\<close>

definition BoundarySystem_entity :: "entity \<Rightarrow> entity" where
  "BoundarySystem_entity e =
     (case getPosition e of None \<Rightarrow> e
      | Some position \<Rightarrow>
     (case getRectangle e of None \<Rightarrow> e
      | Some rectangle \<Rightarrow>
     (case getBoundary e of None \<Rightarrow> e
      | Some (bx, by, bw, bh) \<Rightarrow>
     (case getVelocity e of None \<Rightarrow> e
      | Some velocity \<Rightarrow>
          let (position, velocity) =
                (if fst position < bx
                 then ((0, snd position), (0, snd velocity)) else (position, velocity));
              (position, velocity) =
                (if snd position < by
                 then ((fst position, 0), (fst velocity, 0)) else (position, velocity));
              (position, velocity) =
                (if fst position + fst rectangle > bx + bw
                 then ((bx + bw - fst rectangle, snd position), (0, snd velocity))
                 else (position, velocity));
              (position, velocity) =
                (if snd position + snd rectangle > by + bh
                 then ((fst position, by + bh - snd rectangle), (fst velocity, 0))
                 else (position, velocity))
          in setVelocity velocity (setPosition position e)))))"

definition BoundarySystem_update :: "slots \<Rightarrow> heap \<Rightarrow> heap" where
  "BoundarySystem_update es h = forEach_entity BoundarySystem_entity es h"

text \<open>
  The same callback with its two kinds of sum and its difference computed by given
  functions \<open>add\<close> and \<open>sub\<close>: \<^verbatim>\<open>position.x + rectangle.width\<close> is \<open>add x w\<close>,
  \<^verbatim>\<open>boundary.x + boundary.width - rectangle.width\<close> is \<open>sub (add bx bw) w\<close>. With \<open>(+)\<close> and
  \<open>(-)\<close> it is \<open>BoundarySystem_entity\<close>; with the rounded sum and difference of
  JavaScript numbers it is the arithmetic the program performs on finite values.
\<close>

definition BoundarySystem_entity_rounded ::
  "(real \<Rightarrow> real \<Rightarrow> real) \<Rightarrow> (real \<Rightarrow> real \<Rightarrow> real) \<Rightarrow> entity \<Rightarrow> entity" where
  "BoundarySystem_entity_rounded add sub e =
     (case getPosition e of None \<Rightarrow> e
      | Some position \<Rightarrow>
     (case getRectangle e of None \<Rightarrow> e
      | Some rectangle \<Rightarrow>
     (case getBoundary e of None \<Rightarrow> e
      | Some (bx, by, bw, bh) \<Rightarrow>
     (case getVelocity e of None \<Rightarrow> e
      | Some velocity \<Rightarrow>
          let (position, velocity) =
                (if fst position < bx
                 then ((0, snd position), (0, snd velocity)) else (position, velocity));
              (position, velocity) =
                (if snd position < by
                 then ((fst position, 0), (fst velocity, 0)) else (position, velocity));
              (position, velocity) =
                (if add (fst position) (fst rectangle) > add bx bw
                 then ((sub (add bx bw) (fst rectangle), snd position), (0, snd velocity))
                 else (position, velocity));
              (position, velocity) =
                (if add (snd position) (snd rectangle) > add by bh
                 then ((fst position, sub (add by bh) (snd rectangle)), (fst velocity, 0))
                 else (position, velocity))
          in setVelocity velocity (setPosition position e)))))"

definition BoundarySystem_update_rounded ::
  "(real \<Rightarrow> real \<Rightarrow> real) \<Rightarrow> (real \<Rightarrow> real \<Rightarrow> real) \<Rightarrow> slots \<Rightarrow> heap \<Rightarrow> heap" where
  "BoundarySystem_update_rounded add sub es h =
     forEach_entity (BoundarySystem_entity_rounded add sub) es h"

subsection \<open>\<^verbatim>\<open>CollisionSystem.update\<close>\<close>

text \<open>\<^verbatim>\<open>entityWhitelist?.whitelist?.includes(otherEntity)\<close>\<close>

definition whitelisted :: "heap \<Rightarrow> ref \<Rightarrow> ref \<Rightarrow> bool" where
  "whitelisted h entity otherEntity =
     (case getWhitelist (h entity) of None \<Rightarrow> False | Some wl \<Rightarrow> otherEntity \<in> set wl)"

text \<open>The overlap test of the inner callback, with its strict inequalities.\<close>

definition overlap :: "real \<times> real \<Rightarrow> real \<times> real \<Rightarrow> real \<times> real \<Rightarrow> real \<times> real \<Rightarrow> bool" where
  "overlap position rectangle otherPosition otherRectangle \<longleftrightarrow>
     fst position < fst otherPosition + fst otherRectangle \<and>
     fst position + fst rectangle > fst otherPosition \<and>
     snd position < snd otherPosition + snd otherRectangle \<and>
     snd position + snd rectangle > snd otherPosition"

text \<open>
  The inner callback \<^verbatim>\<open>(otherEntity, i) => ...\<close>. \<^verbatim>\<open>forEach\<close> reads \<^verbatim>\<open>entities[i]\<close> when it
  reaches index \<open>i\<close>, so \<open>otherEntity\<close> is read from the current slots; \<open>entity\<close>,
  \<open>position\<close> and \<open>rectangle\<close> are the variables bound by the outer callback before
  the inner scan started.
\<close>

definition CollisionSystem_inner ::
  "heap \<Rightarrow> ref \<Rightarrow> real \<times> real \<Rightarrow> real \<times> real \<Rightarrow> nat \<Rightarrow> nat \<Rightarrow> slots \<Rightarrow> slots" where
  "CollisionSystem_inner h entity position rectangle j i es =
     (case es ! i of None \<Rightarrow> es
      | Some otherEntity \<Rightarrow>
          if entity = otherEntity then es
          else if whitelisted h entity otherEntity then es
          else if whitelisted h otherEntity entity then es
          else (case getPosition (h otherEntity) of None \<Rightarrow> es
                | Some otherPosition \<Rightarrow>
                    (case getRectangle (h otherEntity) of None \<Rightarrow> es
                     | Some otherRectangle \<Rightarrow>
                         if overlap position rectangle otherPosition otherRectangle
                         then es[i := None, j := None]
                         else es)))"

text \<open>The outer callback \<^verbatim>\<open>(entity, j) => ...\<close>, which runs the inner \<^verbatim>\<open>forEach\<close>.\<close>

definition CollisionSystem_outer :: "heap \<Rightarrow> nat \<Rightarrow> slots \<Rightarrow> slots" where
  "CollisionSystem_outer h j es =
     (case es ! j of None \<Rightarrow> es
      | Some entity \<Rightarrow>
          (case getPosition (h entity) of None \<Rightarrow> es
           | Some position \<Rightarrow>
               (case getRectangle (h entity) of None \<Rightarrow> es
                | Some rectangle \<Rightarrow>
                    fold (CollisionSystem_inner h entity position rectangle j)
                      [0..<length es] es)))"

definition CollisionSystem_update :: "heap \<Rightarrow> slots \<Rightarrow> slots" where
  "CollisionSystem_update h es = fold (CollisionSystem_outer h) [0..<length es] es"

text \<open>
  The conditions under which the inner callback tombstones a pair, with the subject's
  position and rectangle read from the store: the entities differ, neither whitelist
  contains the other, both have a Position and a Rectangle, and the rectangles overlap.
\<close>

definition collides :: "heap \<Rightarrow> ref \<Rightarrow> ref \<Rightarrow> bool" where
  "collides h entity otherEntity \<longleftrightarrow>
     entity \<noteq> otherEntity \<and>
     \<not> whitelisted h entity otherEntity \<and>
     \<not> whitelisted h otherEntity entity \<and>
     (case getPosition (h entity) of None \<Rightarrow> False
      | Some position \<Rightarrow>
     (case getRectangle (h entity) of None \<Rightarrow> False
      | Some rectangle \<Rightarrow>
     (case getPosition (h otherEntity) of None \<Rightarrow> False
      | Some otherPosition \<Rightarrow>
     (case getRectangle (h otherEntity) of None \<Rightarrow> False
      | Some otherRectangle \<Rightarrow> overlap position rectangle otherPosition otherRectangle))))"

subsection \<open>\<^verbatim>\<open>BoundaryRemovalSystem.update\<close>\<close>

text \<open>
  Reading a field of \<^verbatim>\<open>undefined\<close> throws a \<^verbatim>\<open>TypeError\<close>, which leaves \<^verbatim>\<open>forEach\<close> and
  the system. The callback returns early only for a missing position or marker; the
  disjunction then evaluates left to right and stops at the first true operand.
\<close>

datatype error = TypeError

definition BoundaryRemovalSystem_callback :: "heap \<Rightarrow> nat \<Rightarrow> slots \<Rightarrow> error + slots" where
  "BoundaryRemovalSystem_callback h i es =
     (case es ! i of None \<Rightarrow> Inr es
      | Some entity \<Rightarrow>
          let position = getPosition (h entity);
              rectangle = getRectangle (h entity);
              removable = getRemovableAtBoundary (h entity);
              boundary = getBoundary (h entity)
          in (case position of None \<Rightarrow> Inr es
              | Some (px, py) \<Rightarrow>
             (case removable of None \<Rightarrow> Inr es
              | Some u \<Rightarrow>
             (case boundary of None \<Rightarrow> Inl TypeError
              | Some (bx, by, bw, bh) \<Rightarrow>
                  if py < by then Inr (es[i := None])
                  else (case rectangle of None \<Rightarrow> Inl TypeError
                        | Some (w, ht) \<Rightarrow>
                            if py + ht > by + bh \<or> px < bx \<or> px + w > bx + bw
                            then Inr (es[i := None])
                            else Inr es)))))"

fun BoundaryRemovalSystem_forEach :: "heap \<Rightarrow> nat list \<Rightarrow> slots \<Rightarrow> error + slots" where
  "BoundaryRemovalSystem_forEach h [] es = Inr es"
| "BoundaryRemovalSystem_forEach h (i # is) es =
     (case BoundaryRemovalSystem_callback h i es of
        Inl err \<Rightarrow> Inl err
      | Inr es' \<Rightarrow> BoundaryRemovalSystem_forEach h is es')"

definition BoundaryRemovalSystem_update :: "heap \<Rightarrow> slots \<Rightarrow> error + slots" where
  "BoundaryRemovalSystem_update h es = BoundaryRemovalSystem_forEach h [0..<length es] es"

subsection \<open>\<^verbatim>\<open>SpawnSystem.update\<close>\<close>

text \<open>
  \<^verbatim>\<open>SpawnSystem\<close> creates an entity, so it runs on the store together with its
  allocation counter: \<open>nextRef\<close> is the reference the next \<^verbatim>\<open>new Entity()\<close> returns, and
  every reference below it is an object that exists.
\<close>

record world =
  objects :: heap
  nextRef :: ref
  entities :: slots

text \<open>
  What one call reads from outside the world: the two readings of \<^verbatim>\<open>Date.now()\<close> (in the
  cooldown test and in the assignment to \<^verbatim>\<open>lastSpawn\<close>), the size of the canvas, and the
  three results of \<^verbatim>\<open>Math.random()\<close> in the order of the calls.
\<close>

record environment =
  now1 :: real
  now2 :: real
  canvas_width :: real
  canvas_height :: real
  random1 :: real
  random2 :: real
  random3 :: real

definition new_Entity :: "entity \<Rightarrow> world \<Rightarrow> ref \<times> world" where
  "new_Entity components w =
     (nextRef w, w\<lparr>objects := (objects w)(nextRef w := components), nextRef := nextRef w + 1\<rparr>)"

text \<open>\<^verbatim>\<open>ShipAssemblage\<close> and \<^verbatim>\<open>EnemyShipAssemblage\<close>: the components of the new entity.\<close>

definition ShipAssemblage :: entity where
  "ShipAssemblage =
     [PositionComponent 0 0, VelocityComponent 0 0, RenderableComponent None,
      RectangleComponent 32 16, BlasterComponent 0, WhitelistComponent []]"

definition EnemyShipAssemblage :: "real \<Rightarrow> real \<Rightarrow> environment \<Rightarrow> entity" where
  "EnemyShipAssemblage x y env =
     (let entity = setPosition (x, y) ShipAssemblage;
          xVelocity = random2 env * 0.5;
          entity = setVelocity (if random3 env < 0.5 then - xVelocity else xVelocity, 1) entity
      in entity @ [BoundaryComponent (- 100) (- 100)
                     (canvas_width env + 200) (canvas_height env + 200),
                   RemovableAtBoundaryComponent])"

text \<open>The insertion loop at the end of \<^verbatim>\<open>SpawnSystem.update\<close>.\<close>

function SpawnSystem_loop :: "nat \<Rightarrow> ref \<Rightarrow> slots \<Rightarrow> slots" where
  "SpawnSystem_loop i enemy es =
     (if i < length es
      then (if es ! i = None then es[i := Some enemy]
            else SpawnSystem_loop (i + 1) enemy es)
      else es @ [Some enemy])"
  by pat_completeness auto
termination
  by (relation "measure (\<lambda>(i, enemy, es). length es - i)") auto

declare SpawnSystem_loop.simps [simp del]

text \<open>
  \<^verbatim>\<open>entities.find((entity) => entity?.getComponent(SpawnComponent))\<close> returns the first
  non-null slot whose entity has a Spawn component.
\<close>

definition SpawnSystem_update :: "environment \<Rightarrow> world \<Rightarrow> world" where
  "SpawnSystem_update env w =
     (case List.find (\<lambda>slot. case slot of None \<Rightarrow> False
                             | Some r \<Rightarrow> getSpawn (objects w r) \<noteq> None) (entities w) of
        None \<Rightarrow> w
      | Some None \<Rightarrow> w
      | Some (Some spawner) \<Rightarrow>
          (case getSpawn (objects w spawner) of None \<Rightarrow> w
           | Some lastSpawn \<Rightarrow>
          (case getCounter (objects w spawner) of None \<Rightarrow> w
           | Some count \<Rightarrow>
               if now1 env - lastSpawn < 100 then w
               else
                 let w = w\<lparr>objects := (objects w)
                            (spawner := setCounter (count + 1)
                                          (setSpawn (now2 env) (objects w spawner)))\<rparr>
                 in if (count + 1) mod 10 = 0
                    then let (enemy, w) =
                               new_Entity (EnemyShipAssemblage
                                             (random1 env * canvas_width env) 0 env) w
                         in w\<lparr>entities := SpawnSystem_loop 0 enemy (entities w)\<rparr>
                    else w)))"

text \<open>
  The state of the world between calls of \<^verbatim>\<open>SpawnSystem\<close>: the spawner is the first entity
  with a Spawn component, with the given counter and \<open>lastSpawn\<close>, and every reference in
  the slots has been allocated.
\<close>

definition spawner_inv :: "world \<Rightarrow> ref \<Rightarrow> int \<Rightarrow> real \<Rightarrow> bool" where
  "spawner_inv w spawner count lastSpawn \<longleftrightarrow>
     (\<exists>m < length (entities w). entities w ! m = Some spawner \<and>
        (\<forall>i < m. \<forall>r. entities w ! i = Some r \<longrightarrow> getSpawn (objects w r) = None)) \<and>
     getSpawn (objects w spawner) = Some lastSpawn \<and>
     getCounter (objects w spawner) = Some count \<and>
     (\<forall>r. Some r \<in> set (entities w) \<longrightarrow> r < nextRef w)"

section \<open>Example worlds\<close>

definition ship_heap :: heap where
  "ship_heap = (\<lambda>r. [])
     (0 := [PositionComponent (-3) 590, VelocityComponent (-4) 4, RenderableComponent None,
            RectangleComponent 32 16, BoundaryComponent 0 0 400 600],
      1 := [PositionComponent 1 2, VelocityComponent 3 4],
      2 := [PositionComponent 5 5, RectangleComponent 4 8])"

definition wide_heap :: heap where
  "wide_heap = (\<lambda>r. [])(0 := [PositionComponent 6 0, VelocityComponent 1 0,
                              RectangleComponent 12 1, BoundaryComponent 5 0 10 10])"

definition bullet_heap :: heap where
  "bullet_heap = (\<lambda>r. [])
     (0 := [PositionComponent 100 (-2), VelocityComponent 0 (-8), RenderableComponent None,
            RectangleComponent 4 8, BoundaryComponent 0 0 400 600,
            RemovableAtBoundaryComponent, WhitelistComponent []],
      1 := [PositionComponent 100 300, VelocityComponent 0 (-8), RenderableComponent None,
            RectangleComponent 4 8, BoundaryComponent 0 0 400 600,
            RemovableAtBoundaryComponent, WhitelistComponent []],
      2 := [PositionComponent 0 0, RemovableAtBoundaryComponent],
      3 := [PositionComponent 5 5, RemovableAtBoundaryComponent, BoundaryComponent 0 0 10 10])"

definition trio_heap :: heap where
  "trio_heap = (\<lambda>r. [])
     (0 := [PositionComponent 0 0, RectangleComponent 10 10],
      1 := [PositionComponent 1 1, RectangleComponent 2 2],
      2 := [PositionComponent 6 6, RectangleComponent 2 2])"

definition fleet_heap :: heap where
  "fleet_heap = (\<lambda>r. [])
     (0 := [PositionComponent 0 0, RectangleComponent 10 10, WhitelistComponent [3]],
      1 := [PositionComponent 5 5, RectangleComponent 10 10],
      2 := [PositionComponent 20 20, RectangleComponent 10 10],
      3 := [PositionComponent 4 0, VelocityComponent 0 (-8), RectangleComponent 4 8])"

definition spawner_world :: world where
  "spawner_world =
     \<lparr>objects = (\<lambda>r. [])
         (0 := [PositionComponent 0 0, RectangleComponent 10 10],
          1 := [SpawnComponent 0, CounterComponent 0]),
      nextRef = 2,
      entities = [None, Some 1]\<rparr>"

definition call_at :: "real \<Rightarrow> environment" where
  "call_at ms =
     \<lparr>now1 = ms, now2 = ms + 1, canvas_width = 400, canvas_height = 600,
      random1 = 1 / 2, random2 = 1 / 2, random3 = 1 / 4\<rparr>"

definition nine_calls :: "environment list" where
  "nine_calls = map call_at [200, 400, 600, 800, 1000, 1200, 1400, 1600, 1800]"

section \<open>Slot reuse\<close>

lemma addEntity_loop_tombstone:
  "i \<le> k \<Longrightarrow> k < length es \<Longrightarrow> es ! k = None \<Longrightarrow> (\<forall>m. i \<le> m \<and> m < k \<longrightarrow> es ! m \<noteq> None)
   \<Longrightarrow> addEntity_loop i entity es = es[k := Some entity]"
proof (induction i entity es rule: addEntity_loop.induct)
  case (1 i entity es)
  show ?case
  proof (cases "i = k")
    case True
    with "1.prems" show ?thesis by (subst addEntity_loop.simps) simp
  next
    case False
    with "1.prems" have lt: "i < k" and live: "es ! i \<noteq> None" by auto
    from lt "1.prems" have "addEntity_loop (i + 1) entity es = es[k := Some entity]"
      using "1.IH" live by auto
    moreover from lt "1.prems" have "i < length es" by simp
    ultimately show ?thesis using live by (subst addEntity_loop.simps) auto
  qed
qed

lemma addEntity_loop_full:
  "(\<forall>m. i \<le> m \<and> m < length es \<longrightarrow> es ! m \<noteq> None)
   \<Longrightarrow> addEntity_loop i entity es = es @ [Some entity]"
proof (induction i entity es rule: addEntity_loop.induct)
  case (1 i entity es)
  show ?case
  proof (cases "i < length es")
    case True
    with "1.prems" have live: "es ! i \<noteq> None" by auto
    have "addEntity_loop (i + 1) entity es = es @ [Some entity]"
      using "1.IH" True live "1.prems" by auto
    then show ?thesis using True live by (subst addEntity_loop.simps) auto
  next
    case False
    then show ?thesis by (subst addEntity_loop.simps) simp
  qed
qed

text \<open>
  C9. \<^verbatim>\<open>addEntity\<close> writes the entity into the lowest-indexed tombstone, which leaves
  every other slot and the length as they were; with no tombstone it appends the entity
  at index \<open>length es\<close>.
\<close>

theorem addEntity_slot_reuse:
  "(k < length es \<and> es ! k = None \<and> (\<forall>m < k. es ! m \<noteq> None)
      \<longrightarrow> addEntity entity es = es[k := Some entity])
   \<and> ((\<forall>m < length es. es ! m \<noteq> None) \<longrightarrow> addEntity entity es = es @ [Some entity])"
  unfolding addEntity_def
  using addEntity_loop_tombstone [of 0 k es entity] addEntity_loop_full [of 0 es entity]
  by simp

theorem addEntity_slot_reuse_witness:
  "addEntity 7 [Some 1, None, Some 2, None] = [Some 1, Some 7, Some 2, None]
   \<and> addEntity 7 [Some 1, Some 2] = [Some 1, Some 2, Some 7]"
proof -
  have a: "addEntity 7 [Some 1, None, Some 2, None] = [Some 1, None, Some 2, None][1 := Some 7]"
    using addEntity_slot_reuse [of 1 "[Some 1, None, Some 2, None]" 7] by simp
  have b: "addEntity 7 [Some 1, Some 2] = [Some 1, Some 2] @ [Some 7]"
    using addEntity_slot_reuse [of 0 "[Some 1, Some 2]" 7] by (simp add: less_Suc_eq)
  from a b show ?thesis by simp
qed

lemma addEntity_cases:
  "(\<exists>k < length es. es ! k = None \<and> addEntity e es = es[k := Some e])
   \<or> ((\<forall>m < length es. es ! m \<noteq> None) \<and> addEntity e es = es @ [Some e])"
proof (cases "\<exists>k < length es. es ! k = None")
  case True
  define k where "k = (LEAST k. k < length es \<and> es ! k = None)"
  from True have k: "k < length es \<and> es ! k = None"
    unfolding k_def by (rule LeastI_ex)
  have "\<forall>m. 0 \<le> m \<and> m < k \<longrightarrow> es ! m \<noteq> None"
  proof (intro allI impI)
    fix m assume m: "0 \<le> m \<and> m < k"
    show "es ! m \<noteq> None"
    proof
      assume "es ! m = None"
      with m k have "m < length es \<and> es ! m = None" by simp
      then have "k \<le> m" unfolding k_def by (rule Least_le)
      with m show False by simp
    qed
  qed
  with k have "addEntity e es = es[k := Some e]"
    unfolding addEntity_def by (intro addEntity_loop_tombstone) simp_all
  with k show ?thesis by blast
next
  case False
  then have full: "\<forall>m. 0 \<le> m \<and> m < length es \<longrightarrow> es ! m \<noteq> None" by auto
  then have "addEntity e es = es @ [Some e]"
    unfolding addEntity_def by (rule addEntity_loop_full)
  with full show ?thesis by simp
qed

lemma addEntity_slots:
  "length es \<le> length (addEntity e es)
   \<and> (\<forall>i < length es. es ! i \<noteq> None \<longrightarrow> addEntity e es ! i = es ! i)
   \<and> (\<forall>i < length es. addEntity e es ! i = es ! i \<or> addEntity e es ! i = Some e)
   \<and> set (addEntity e es) \<subseteq> insert (Some e) (set es)"
proof -
  from addEntity_cases [of es e] show ?thesis
  proof
    assume "\<exists>k < length es. es ! k = None \<and> addEntity e es = es[k := Some e]"
    then obtain k where k: "k < length es" "es ! k = None" "addEntity e es = es[k := Some e]"
      by blast
    have "set (es[k := Some e]) \<subseteq> insert (Some e) (set es)"
      by (rule set_update_subset_insert)
    with k show ?thesis by (auto simp: nth_list_update)
  next
    assume "(\<forall>m < length es. es ! m \<noteq> None) \<and> addEntity e es = es @ [Some e]"
    then show ?thesis by (auto simp: nth_append)
  qed
qed

section \<open>Reading and writing components\<close>

lemma getPosition_setPosition:
  "getPosition e = Some q \<Longrightarrow> getPosition (setPosition p e) = Some p"
  by (induction e rule: getPosition.induct) auto

lemma getVelocity_setPosition: "getVelocity (setPosition p e) = getVelocity e"
  by (induction p e rule: setPosition.induct) auto

lemma getRectangle_setPosition: "getRectangle (setPosition p e) = getRectangle e"
  by (induction p e rule: setPosition.induct) auto

lemma getBoundary_setPosition: "getBoundary (setPosition p e) = getBoundary e"
  by (induction p e rule: setPosition.induct) auto

lemma getVelocity_setVelocity:
  "getVelocity e = Some q \<Longrightarrow> getVelocity (setVelocity v e) = Some v"
  by (induction e rule: getVelocity.induct) auto

lemma getPosition_setVelocity: "getPosition (setVelocity v e) = getPosition e"
  by (induction v e rule: setVelocity.induct) auto

lemma getRectangle_setVelocity: "getRectangle (setVelocity v e) = getRectangle e"
  by (induction v e rule: setVelocity.induct) auto

lemma getBoundary_setVelocity: "getBoundary (setVelocity v e) = getBoundary e"
  by (induction v e rule: setVelocity.induct) auto

lemma setPosition_same: "getPosition e = Some p \<Longrightarrow> setPosition p e = e"
  by (induction e rule: getPosition.induct) auto

lemma setVelocity_same: "getVelocity e = Some v \<Longrightarrow> setVelocity v e = e"
  by (induction e rule: getVelocity.induct) auto

lemma getSpawn_setSpawn: "getSpawn e = Some t0 \<Longrightarrow> getSpawn (setSpawn t e) = Some t"
  by (induction e rule: getSpawn.induct) auto

lemma getCounter_setSpawn: "getCounter (setSpawn t e) = getCounter e"
  by (induction t e rule: setSpawn.induct) auto

lemma getCounter_setCounter: "getCounter e = Some n0 \<Longrightarrow> getCounter (setCounter n e) = Some n"
  by (induction e rule: getCounter.induct) auto

lemma getSpawn_setCounter: "getSpawn (setCounter n e) = getSpawn e"
  by (induction n e rule: setCounter.induct) auto

lemma getSpawn_EnemyShipAssemblage: "getSpawn (EnemyShipAssemblage x y env) = None"
  by (simp add: EnemyShipAssemblage_def ShipAssemblage_def Let_def)

section \<open>Movement\<close>

lemma forEach_entity_funpow:
  "forEach_entity f es h r = (f ^^ count_list es (Some r)) (h r)"
  unfolding forEach_entity_def
proof (induction es arbitrary: h)
  case Nil
  show ?case by simp
next
  case (Cons slot es)
  show ?case
  proof (cases slot)
    case None
    then show ?thesis using Cons.IH [of h] by simp
  next
    case (Some r')
    have "fold (\<lambda>slot h. case slot of None \<Rightarrow> h | Some r \<Rightarrow> h(r := f (h r))) es
            (h(r' := f (h r'))) r
          = (f ^^ count_list es (Some r)) ((h(r' := f (h r'))) r)"
      by (rule Cons.IH)
    with Some show ?thesis by (cases "r' = r") (simp_all add: funpow_swap1)
  qed
qed

text \<open>
  C8. One \<^verbatim>\<open>MovementSystem\<close> tick: an entity with Position \<open>(x, y)\<close> and Velocity
  \<open>(vx, vy)\<close> that occupies one slot gets the position \<open>(x + vx, y + vy)\<close> and nothing
  else of it changes; an entity without a Position or without a Velocity is left as it
  was. The tick has no failing branch: the model is a total function with no error value.
\<close>

theorem MovementSystem_moves:
  "(getPosition (h r) = Some (x, y) \<and> getVelocity (h r) = Some (vx, vy)
      \<and> count_list es (Some r) = 1
    \<longrightarrow> MovementSystem_update es h r = setPosition (x + vx, y + vy) (h r)
        \<and> getPosition (MovementSystem_update es h r) = Some (x + vx, y + vy)
        \<and> getVelocity (MovementSystem_update es h r) = Some (vx, vy))
   \<and> (getPosition (h r) = None \<or> getVelocity (h r) = None
    \<longrightarrow> MovementSystem_update es h r = h r)"
proof -
  have stay: "(MovementSystem_entity ^^ n) e = e"
    if "getPosition e = None \<or> getVelocity e = None" for n e
    using that by (induction n) (auto simp: MovementSystem_entity_def split: option.splits)
  show ?thesis
    unfolding MovementSystem_update_def forEach_entity_funpow
    by (auto simp: stay MovementSystem_entity_def getPosition_setPosition getVelocity_setPosition)
qed

theorem MovementSystem_moves_witness:
  "MovementSystem_update [Some 0, None, Some 1, Some 2] ship_heap 1
     = [PositionComponent 4 6, VelocityComponent 3 4]
   \<and> MovementSystem_update [Some 0, None, Some 1, Some 2] ship_heap 2 = ship_heap 2"
proof -
  have a: "getPosition (ship_heap 1) = Some (1, 2) \<and> getVelocity (ship_heap 1) = Some (3, 4)
        \<and> count_list [Some 0, None, Some 1, Some 2] (Some (1::nat)) = 1"
    by (simp add: ship_heap_def)
  have b: "getPosition (ship_heap 2) = None \<or> getVelocity (ship_heap 2) = None"
    by (simp add: ship_heap_def)
  from a MovementSystem_moves [of ship_heap 1 1 2 3 4 "[Some 0, None, Some 1, Some 2]"]
  have "MovementSystem_update [Some 0, None, Some 1, Some 2] ship_heap 1
        = setPosition (1 + 3, 2 + 4) (ship_heap 1)"
    by blast
  moreover from b MovementSystem_moves [of ship_heap 2 0 0 0 0 "[Some 0, None, Some 1, Some 2]"]
  have "MovementSystem_update [Some 0, None, Some 1, Some 2] ship_heap 2 = ship_heap 2"
    by blast
  ultimately show ?thesis by (simp add: ship_heap_def)
qed

section \<open>Boundary clamping\<close>

lemma BoundarySystem_entity_eq:
  assumes "getPosition e = Some (x, y)" and "getRectangle e = Some (w, ht)"
    and "getBoundary e = Some (bx, by, bw, bh)" and "getVelocity e = Some (vx, vy)"
  shows "BoundarySystem_entity e =
     setVelocity
       (if x < bx \<or> bx + bw < (if x < bx then 0 else x) + w then 0 else vx,
        if y < by \<or> by + bh < (if y < by then 0 else y) + ht then 0 else vy)
       (setPosition
         (if bx + bw < (if x < bx then 0 else x) + w then bx + bw - w
          else (if x < bx then 0 else x),
          if by + bh < (if y < by then 0 else y) + ht then by + bh - ht
          else (if y < by then 0 else y)) e)"
  using assms by (simp add: BoundarySystem_entity_def)

lemma BoundarySystem_entity_skip:
  "getPosition e = None \<or> getRectangle e = None \<or> getBoundary e = None \<or> getVelocity e = None
   \<Longrightarrow> BoundarySystem_entity e = e"
  by (auto simp: BoundarySystem_entity_def split: option.splits)

text \<open>
  C6. One \<^verbatim>\<open>BoundarySystem\<close> tick on an entity with Position, Rectangle, Boundary and
  Velocity that occupies one slot. Left of the boundary the x position becomes the
  literal 0 (not \<open>bx\<close>) and the x velocity 0; beyond the right edge the x position becomes
  \<open>bx + bw - w\<close> and the x velocity 0; the right check runs after the left one, on the
  position the left one left. The same holds on the y axis, and an axis on which no
  check fires keeps its position and velocity.
\<close>

theorem BoundarySystem_clamps:
  assumes "getPosition (h r) = Some (x, y)" and "getRectangle (h r) = Some (w, ht)"
    and "getBoundary (h r) = Some (bx, by, bw, bh)" and "getVelocity (h r) = Some (vx, vy)"
    and "count_list es (Some r) = 1"
  shows "\<exists>x' y' vx' vy'.
      getPosition (BoundarySystem_update es h r) = Some (x', y')
    \<and> getVelocity (BoundarySystem_update es h r) = Some (vx', vy')
    \<and> (x < bx \<longrightarrow> vx' = 0 \<and> x' = (if 0 + w > bx + bw then bx + bw - w else 0))
    \<and> (\<not> x < bx \<and> x + w > bx + bw \<longrightarrow> vx' = 0 \<and> x' = bx + bw - w)
    \<and> (\<not> x < bx \<and> \<not> x + w > bx + bw \<longrightarrow> vx' = vx \<and> x' = x)
    \<and> (y < by \<longrightarrow> vy' = 0 \<and> y' = (if 0 + ht > by + bh then by + bh - ht else 0))
    \<and> (\<not> y < by \<and> y + ht > by + bh \<longrightarrow> vy' = 0 \<and> y' = by + bh - ht)
    \<and> (\<not> y < by \<and> \<not> y + ht > by + bh \<longrightarrow> vy' = vy \<and> y' = y)"
proof -
  have "BoundarySystem_update es h r = BoundarySystem_entity (h r)"
    using assms(5) by (simp add: BoundarySystem_update_def forEach_entity_funpow)
  then show ?thesis
    using assms(1-4)
    by (simp add: BoundarySystem_entity_eq [OF assms(1-4)] getPosition_setPosition
        getPosition_setVelocity getVelocity_setVelocity getVelocity_setPosition)
qed

theorem BoundarySystem_clamps_witness:
  "getPosition (BoundarySystem_update [Some 0, None, Some 1, Some 2] ship_heap 0) = Some (0, 584)
   \<and> getVelocity (BoundarySystem_update [Some 0, None, Some 1, Some 2] ship_heap 0) = Some (0, 0)"
proof -
  have "count_list [Some 0, None, Some 1, Some 2] (Some (0::nat)) = 1" by simp
  from BoundarySystem_clamps [of ship_heap 0 "-3" 590 32 16 0 0 400 600 "-4" 4, OF _ _ _ _ this]
  show ?thesis by (auto simp: ship_heap_def)
qed

text \<open>
  C7 fails as stated: with a boundary whose left edge is at 5 and a rectangle wider than
  the boundary, the first tick clamps the position to the right edge (x = 3), and the
  second tick finds it left of the boundary and snaps it to the literal 0.
\<close>

theorem BoundarySystem_not_idempotent:
  "BoundarySystem_update [Some 0] (BoundarySystem_update [Some 0] wide_heap)
     \<noteq> BoundarySystem_update [Some 0] wide_heap
   \<and> getPosition (BoundarySystem_update [Some 0] wide_heap 0) = Some (3, 0)
   \<and> getPosition (BoundarySystem_update [Some 0] (BoundarySystem_update [Some 0] wide_heap) 0)
       = Some (0, 0)"
proof -
  have once: "BoundarySystem_update [Some 0] wide_heap 0
      = [PositionComponent 3 0, VelocityComponent 0 0,
         RectangleComponent 12 1, BoundaryComponent 5 0 10 10]"
    by (simp add: BoundarySystem_update_def forEach_entity_def BoundarySystem_entity_def
        wide_heap_def)
  have twice: "BoundarySystem_update [Some 0] (BoundarySystem_update [Some 0] wide_heap) 0
      = [PositionComponent 0 0, VelocityComponent 0 0,
         RectangleComponent 12 1, BoundaryComponent 5 0 10 10]"
    by (simp add: BoundarySystem_update_def [of _ "BoundarySystem_update [Some 0] wide_heap"]
        forEach_entity_def BoundarySystem_entity_def once)
  from once twice have "BoundarySystem_update [Some 0] (BoundarySystem_update [Some 0] wide_heap) 0
     \<noteq> BoundarySystem_update [Some 0] wide_heap 0" by simp
  then have "BoundarySystem_update [Some 0] (BoundarySystem_update [Some 0] wide_heap)
     \<noteq> BoundarySystem_update [Some 0] wide_heap" by metis
  with once twice show ?thesis by simp
qed

lemma funpow_idem:
  "f (f e) = f e \<Longrightarrow> 0 < n \<Longrightarrow> (f ^^ n) e = f e"
proof (induction n)
  case 0
  then show ?case by simp
next
  case (Suc n)
  then show ?case by (cases n) auto
qed

lemma BoundarySystem_entity_rounded_exact:
  "BoundarySystem_entity_rounded (+) (-) = BoundarySystem_entity"
  by (rule ext) (simp add: BoundarySystem_entity_rounded_def BoundarySystem_entity_def)

lemma BoundarySystem_update_rounded_exact:
  "BoundarySystem_update_rounded (+) (-) = BoundarySystem_update"
  by (intro ext)
     (simp add: BoundarySystem_update_rounded_def BoundarySystem_update_def
        BoundarySystem_entity_rounded_exact)

lemma BoundarySystem_entity_rounded_eq:
  assumes "getPosition e = Some (x, y)" and "getRectangle e = Some (w, ht)"
    and "getBoundary e = Some (bx, by, bw, bh)" and "getVelocity e = Some (vx, vy)"
  shows "BoundarySystem_entity_rounded add sub e =
     setVelocity
       (if x < bx \<or> add bx bw < add (if x < bx then 0 else x) w then 0 else vx,
        if y < by \<or> add by bh < add (if y < by then 0 else y) ht then 0 else vy)
       (setPosition
         (if add bx bw < add (if x < bx then 0 else x) w then sub (add bx bw) w
          else (if x < bx then 0 else x),
          if add by bh < add (if y < by then 0 else y) ht then sub (add by bh) ht
          else (if y < by then 0 else y)) e)"
  using assms by (simp add: BoundarySystem_entity_rounded_def)

lemma BoundarySystem_entity_rounded_skip:
  "getPosition e = None \<or> getRectangle e = None \<or> getBoundary e = None \<or> getVelocity e = None
   \<Longrightarrow> BoundarySystem_entity_rounded add sub e = e"
  by (auto simp: BoundarySystem_entity_rounded_def split: option.splits)

lemma clamp_axis_stable:
  fixes add sub :: "real \<Rightarrow> real \<Rightarrow> real"
  assumes zero: "\<forall>w. add 0 w = w" and mono: "\<forall>s w. w \<le> s \<longrightarrow> 0 \<le> sub s w"
    and b: "b \<le> 0"
    and x': "x' = (if add b bw < add (if x < b then 0 else x) w then sub (add b bw) w
                   else (if x < b then 0 else x))"
    and v': "v' = (if x < b \<or> add b bw < add (if x < b then 0 else x) w then 0 else v)"
  shows "(if add b bw < add (if x' < b then 0 else x') w then sub (add b bw) w
          else (if x' < b then 0 else x')) = x'
       \<and> (if x' < b \<or> add b bw < add (if x' < b then 0 else x') w then 0 else v') = v'"
proof (cases "add b bw < add (if x < b then 0 else x) w")
  case True
  then have x'eq: "x' = sub (add b bw) w" and v'eq: "v' = 0" using x' v' by simp_all
  show ?thesis
  proof (cases "x' < b")
    case neg: True
    have "add b bw < w"
    proof (rule ccontr)
      assume "\<not> add b bw < w"
      then have "w \<le> add b bw" by simp
      with mono have "0 \<le> sub (add b bw) w" by blast
      with x'eq neg b show False by simp
    qed
    with neg zero x'eq v'eq show ?thesis by simp
  next
    case False
    with x'eq v'eq show ?thesis by simp
  qed
next
  case False
  then have x'eq: "x' = (if x < b then 0 else x)" using x' by simp
  show ?thesis
  proof (cases "x < b")
    case True
    with x'eq have "x' = 0" by simp
    moreover from True v' have "v' = 0" by simp
    ultimately show ?thesis using False True b by simp
  next
    case nl: False
    with x'eq have "x' = x" by simp
    moreover from nl False v' have "v' = v" by simp
    ultimately show ?thesis using False nl by simp
  qed
qed

lemma BoundarySystem_entity_rounded_idem:
  fixes add sub :: "real \<Rightarrow> real \<Rightarrow> real"
  assumes zero: "\<forall>w. add 0 w = w" and mono: "\<forall>s w. w \<le> s \<longrightarrow> 0 \<le> sub s w"
    and low: "\<forall>bx by bw bh. getBoundary e = Some (bx, by, bw, bh) \<longrightarrow> bx \<le> 0 \<and> by \<le> 0"
  shows "BoundarySystem_entity_rounded add sub (BoundarySystem_entity_rounded add sub e)
       = BoundarySystem_entity_rounded add sub e"
proof (cases "getPosition e = None \<or> getRectangle e = None \<or> getBoundary e = None \<or> getVelocity e = None")
  case True
  then show ?thesis by (simp add: BoundarySystem_entity_rounded_skip)
next
  case False
  then obtain x y w ht bx "by" bw bh vx vy where
    c: "getPosition e = Some (x, y)" "getRectangle e = Some (w, ht)"
       "getBoundary e = Some (bx, by, bw, bh)" "getVelocity e = Some (vx, vy)"
    by auto
  from low c have b: "bx \<le> 0" "by \<le> 0" by auto
  define x' where "x' = (if add bx bw < add (if x < bx then 0 else x) w then sub (add bx bw) w
          else (if x < bx then 0 else x))"
  define y' where "y' = (if add by bh < add (if y < by then 0 else y) ht then sub (add by bh) ht
          else (if y < by then 0 else y))"
  define vx' where "vx' = (if x < bx \<or> add bx bw < add (if x < bx then 0 else x) w then 0 else vx)"
  define vy' where "vy' = (if y < by \<or> add by bh < add (if y < by then 0 else y) ht then 0 else vy)"
  define e' where "e' = setVelocity (vx', vy') (setPosition (x', y') e)"
  have once: "BoundarySystem_entity_rounded add sub e = e'"
    unfolding e'_def x'_def y'_def vx'_def vy'_def
    by (rule BoundarySystem_entity_rounded_eq [OF c])
  have c': "getPosition e' = Some (x', y')" "getRectangle e' = Some (w, ht)"
       "getBoundary e' = Some (bx, by, bw, bh)" "getVelocity e' = Some (vx', vy')"
    using c by (simp_all add: e'_def getPosition_setPosition getPosition_setVelocity
        getVelocity_setVelocity getVelocity_setPosition getRectangle_setPosition
        getRectangle_setVelocity getBoundary_setPosition getBoundary_setVelocity)
  from clamp_axis_stable [OF zero mono b(1) x'_def vx'_def]
  have px: "(if add bx bw < add (if x' < bx then 0 else x') w then sub (add bx bw) w
          else (if x' < bx then 0 else x')) = x'"
    and qx: "(if x' < bx \<or> add bx bw < add (if x' < bx then 0 else x') w then 0 else vx') = vx'"
    by simp_all
  from clamp_axis_stable [OF zero mono b(2) y'_def vy'_def]
  have py: "(if add by bh < add (if y' < by then 0 else y') ht then sub (add by bh) ht
          else (if y' < by then 0 else y')) = y'"
    and qy: "(if y' < by \<or> add by bh < add (if y' < by then 0 else y') ht then 0 else vy') = vy'"
    by simp_all
  have "BoundarySystem_entity_rounded add sub e' = setVelocity (vx', vy') (setPosition (x', y') e')"
    using BoundarySystem_entity_rounded_eq [OF c', of add sub] unfolding px py qx qy .
  also have "\<dots> = e'"
    using c' by (simp add: setPosition_same setVelocity_same)
  finally show ?thesis by (simp add: once)
qed

text \<open>
  C7, amended. When every entity in the slots that has a Boundary has \<open>boundary.x \<le> 0\<close>
  and \<open>boundary.y \<le> 0\<close>, a second \<^verbatim>\<open>BoundarySystem\<close> tick changes nothing: the store after
  two ticks is the store after one. This holds for exact arithmetic and for every rounded
  sum \<open>add\<close> and difference \<open>sub\<close> with \<open>add 0 w = w\<close> and \<open>0 \<le> sub s w\<close> whenever
  \<open>w \<le> s\<close>, so it does not depend on \<open>bx + bw - w + w = bx + bw\<close>.
\<close>

theorem BoundarySystem_idempotent:
  assumes "\<forall>r bx by bw bh.
      Some r \<in> set es \<and> getBoundary (h r) = Some (bx, by, bw, bh) \<longrightarrow> bx \<le> 0 \<and> by \<le> 0"
  shows "(\<forall>add sub. (\<forall>w. add 0 w = w) \<and> (\<forall>s w. w \<le> s \<longrightarrow> 0 \<le> sub s w) \<longrightarrow>
            BoundarySystem_update_rounded add sub es (BoundarySystem_update_rounded add sub es h)
              = BoundarySystem_update_rounded add sub es h)
       \<and> BoundarySystem_update es (BoundarySystem_update es h) = BoundarySystem_update es h"
proof -
  have gen: "BoundarySystem_update_rounded add sub es (BoundarySystem_update_rounded add sub es h)
              = BoundarySystem_update_rounded add sub es h"
    if zero: "\<forall>w. add 0 w = w" and mono: "\<forall>s w. w \<le> s \<longrightarrow> 0 \<le> sub s w"
    for add sub :: "real \<Rightarrow> real \<Rightarrow> real"
  proof
    fix r
    let ?f = "BoundarySystem_entity_rounded add sub"
    let ?n = "count_list es (Some r)"
    show "BoundarySystem_update_rounded add sub es (BoundarySystem_update_rounded add sub es h) r
        = BoundarySystem_update_rounded add sub es h r"
    proof (cases "?n = 0")
      case True
      then show ?thesis by (simp add: BoundarySystem_update_rounded_def forEach_entity_funpow)
    next
      case False
      then have "Some r \<in> set es" by (simp add: count_list_0_iff)
      with assms have "\<forall>bx by bw bh. getBoundary (h r) = Some (bx, by, bw, bh) \<longrightarrow> bx \<le> 0 \<and> by \<le> 0"
        by blast
      with zero mono have idem: "?f (?f (h r)) = ?f (h r)"
        by (rule BoundarySystem_entity_rounded_idem)
      from False have pos: "0 < ?n" by simp
      have one: "(?f ^^ ?n) (h r) = ?f (h r)"
        by (rule funpow_idem [OF idem pos])
      have "?f (?f (?f (h r))) = ?f (?f (h r))" by (simp add: idem)
      then have "(?f ^^ ?n) (?f (h r)) = ?f (?f (h r))"
        by (rule funpow_idem [OF _ pos])
      with one idem show ?thesis
        by (simp add: BoundarySystem_update_rounded_def forEach_entity_funpow)
    qed
  qed
  have "BoundarySystem_update_rounded (+) (-) es (BoundarySystem_update_rounded (+) (-) es h)
              = BoundarySystem_update_rounded (+) (-) es h"
    by (rule gen) simp_all
  then have "BoundarySystem_update es (BoundarySystem_update es h) = BoundarySystem_update es h"
    by (simp add: BoundarySystem_update_rounded_exact)
  with gen show ?thesis by blast
qed

theorem BoundarySystem_idempotent_witness:
  "BoundarySystem_update [Some 0, None, Some 1, Some 2]
     (BoundarySystem_update [Some 0, None, Some 1, Some 2] ship_heap)
   = BoundarySystem_update [Some 0, None, Some 1, Some 2] ship_heap
   \<and> getPosition (BoundarySystem_update [Some 0, None, Some 1, Some 2] ship_heap 0) \<noteq>
       getPosition (ship_heap 0)"
proof -
  have "\<forall>r bx by bw bh.
      Some r \<in> set [Some 0, None, Some 1, Some 2]
        \<and> getBoundary (ship_heap r) = Some (bx, by, bw, bh) \<longrightarrow> bx \<le> 0 \<and> by \<le> 0"
    by (auto simp: ship_heap_def)
  from BoundarySystem_idempotent [OF this]
  have idem: "BoundarySystem_update [Some 0, None, Some 1, Some 2]
     (BoundarySystem_update [Some 0, None, Some 1, Some 2] ship_heap)
   = BoundarySystem_update [Some 0, None, Some 1, Some 2] ship_heap"
    by blast
  have moved: "getPosition (BoundarySystem_update [Some 0, None, Some 1, Some 2] ship_heap 0)
      = Some (0, 584)"
    by (simp add: BoundarySystem_update_def forEach_entity_def BoundarySystem_entity_def
        ship_heap_def)
  have "getPosition (ship_heap 0) = Some (- 3, 590)" by (simp add: ship_heap_def)
  with moved have "getPosition (BoundarySystem_update [Some 0, None, Some 1, Some 2] ship_heap 0)
      \<noteq> getPosition (ship_heap 0)" by simp
  with idem show ?thesis by (rule conjI)
qed

section \<open>Boundary removal\<close>

lemma BoundaryRemovalSystem_callback_other:
  "BoundaryRemovalSystem_callback h i es = Inr es' \<Longrightarrow>
     length es' = length es \<and> (k \<noteq> i \<longrightarrow> es' ! k = es ! k)"
  by (auto simp: BoundaryRemovalSystem_callback_def split: option.splits if_splits)

lemma BoundaryRemovalSystem_forEach_other:
  "BoundaryRemovalSystem_forEach h is es = Inr es' \<Longrightarrow>
     length es' = length es \<and> (k \<notin> set is \<longrightarrow> es' ! k = es ! k)"
proof (induction "is" arbitrary: es)
  case Nil
  then show ?case by simp
next
  case (Cons i "is")
  from Cons.prems obtain es1 where
    step: "BoundaryRemovalSystem_callback h i es = Inr es1"
    and rest: "BoundaryRemovalSystem_forEach h is es1 = Inr es'"
    by (auto split: sum.splits)
  from BoundaryRemovalSystem_callback_other [OF step, of k] Cons.IH [OF rest]
  show ?case by auto
qed

lemma BoundaryRemovalSystem_callback_self:
  assumes "BoundaryRemovalSystem_callback h k es = Inr es'" and "k < length es"
    and "es ! k = Some r"
    and "getPosition (h r) = Some (x, y)" and "getRectangle (h r) = Some (w, ht)"
    and "getRemovableAtBoundary (h r) = Some u" and "getBoundary (h r) = Some (bx, by, bw, bh)"
  shows "es' ! k = (if y < by \<or> y + ht > by + bh \<or> x < bx \<or> x + w > bx + bw
                    then None else Some r)"
  using assms by (auto simp: BoundaryRemovalSystem_callback_def split: if_splits)

lemma BoundaryRemovalSystem_forEach_slot:
  assumes "BoundaryRemovalSystem_forEach h is es = Inr es'" and "distinct is"
    and "k < length es" and "es ! k = Some r"
    and "getPosition (h r) = Some (x, y)" and "getRectangle (h r) = Some (w, ht)"
    and "getRemovableAtBoundary (h r) = Some u" and "getBoundary (h r) = Some (bx, by, bw, bh)"
  shows "es' ! k = (if k \<in> set is \<and> (y < by \<or> y + ht > by + bh \<or> x < bx \<or> x + w > bx + bw)
                    then None else Some r)"
  using assms(1-4)
proof (induction "is" arbitrary: es)
  case Nil
  then show ?case by simp
next
  case (Cons i "is")
  from Cons.prems(1) obtain es1 where
    step: "BoundaryRemovalSystem_callback h i es = Inr es1"
    and rest: "BoundaryRemovalSystem_forEach h is es1 = Inr es'"
    by (auto split: sum.splits)
  show ?case
  proof (cases "i = k")
    case True
    with Cons.prems(2) have "k \<notin> set is" by simp
    with BoundaryRemovalSystem_forEach_other [OF rest, of k] have "es' ! k = es1 ! k" by simp
    moreover from step True have "BoundaryRemovalSystem_callback h k es = Inr es1" by simp
    from BoundaryRemovalSystem_callback_self [OF this Cons.prems(3,4) assms(5-8)]
    have "es1 ! k = (if y < by \<or> y + ht > by + bh \<or> x < bx \<or> x + w > bx + bw
                    then None else Some r)" .
    ultimately show ?thesis using True by simp
  next
    case False
    with BoundaryRemovalSystem_callback_other [OF step, of k] Cons.prems
    have "k < length es1" "es1 ! k = Some r" by simp_all
    with Cons.IH [OF rest] Cons.prems(2) False show ?thesis by simp
  qed
qed

lemma BoundaryRemovalSystem_forEach_total:
  assumes "\<forall>i r. i < length es \<and> es ! i = Some r \<and> getPosition (h r) \<noteq> None \<and> getRemovableAtBoundary (h r) \<noteq> None
      \<longrightarrow> getBoundary (h r) \<noteq> None \<and> getRectangle (h r) \<noteq> None"
    and "\<forall>i \<in> set is. i < length es"
  shows "\<exists>es'. BoundaryRemovalSystem_forEach h is es = Inr es'"
  using assms
proof (induction "is" arbitrary: es)
  case Nil
  then show ?case by simp
next
  case (Cons i "is")
  have "\<exists>es1. BoundaryRemovalSystem_callback h i es = Inr es1"
  proof (cases "es ! i")
    case None
    then show ?thesis by (simp add: BoundaryRemovalSystem_callback_def)
  next
    case (Some a)
    from Cons.prems(2) have "i < length es" by simp
    with Cons.prems(1) Some
    have "getPosition (h a) \<noteq> None \<and> getRemovableAtBoundary (h a) \<noteq> None
          \<longrightarrow> getBoundary (h a) \<noteq> None \<and> getRectangle (h a) \<noteq> None"
      by blast
    with Some show ?thesis
      by (auto simp: BoundaryRemovalSystem_callback_def split: option.splits)
  qed
  then obtain es1 where step: "BoundaryRemovalSystem_callback h i es = Inr es1" ..
  have len: "length es1 = length es"
    using BoundaryRemovalSystem_callback_other [OF step] by simp
  have keep: "es1 ! m = es ! m \<or> es1 ! m = None" if "m < length es" for m
    using step that
    by (cases "m = i") (auto simp: BoundaryRemovalSystem_callback_def split: option.splits if_splits)
  have "\<exists>es'. BoundaryRemovalSystem_forEach h is es1 = Inr es'"
  proof (rule Cons.IH)
    show "\<forall>i r. i < length es1 \<and> es1 ! i = Some r \<and> getPosition (h r) \<noteq> None \<and> getRemovableAtBoundary (h r) \<noteq> None
      \<longrightarrow> getBoundary (h r) \<noteq> None \<and> getRectangle (h r) \<noteq> None"
      using Cons.prems(1) keep len by (metis option.distinct(1))
    show "\<forall>i \<in> set is. i < length es1" using Cons.prems(2) len by simp
  qed
  with step show ?case by simp
qed

text \<open>
  C2 fails as stated: a bullet whose rectangle starts 2 above the top edge of its boundary
  and reaches 6 into it still intersects the boundary (\<open>overlap\<close> is the intersection test
  of the collision system), and its slot is tombstoned.
\<close>

theorem BoundaryRemovalSystem_removes_partial_overlap:
  "BoundaryRemovalSystem_update bullet_heap [Some 0] = Inr [None]
   \<and> getPosition (bullet_heap 0) = Some (100, -2)
   \<and> getRectangle (bullet_heap 0) = Some (4, 8)
   \<and> getRemovableAtBoundary (bullet_heap 0) = Some ()
   \<and> getBoundary (bullet_heap 0) = Some (0, 0, 400, 600)
   \<and> overlap (100, -2) (4, 8) (0, 0) (400, 600)"
  by (simp add: BoundaryRemovalSystem_update_def BoundaryRemovalSystem_callback_def
      bullet_heap_def overlap_def)

text \<open>
  C2, amended. For an entity with Position, Rectangle, RemovableAtBoundary and Boundary,
  a \<^verbatim>\<open>BoundaryRemovalSystem\<close> pass that completes tombstones its slot exactly when the
  rectangle is not entirely inside the boundary: it starts above or left of the boundary,
  or ends below or right of it. Otherwise the slot keeps the entity. The pass completes
  whenever every entity with a Position and the marker also has a Boundary and a
  Rectangle.
\<close>

theorem BoundaryRemovalSystem_removes:
  assumes "k < length es" and "es ! k = Some r"
    and "getPosition (h r) = Some (x, y)" and "getRectangle (h r) = Some (w, ht)"
    and "getRemovableAtBoundary (h r) = Some u" and "getBoundary (h r) = Some (bx, by, bw, bh)"
  shows "((\<forall>i r. i < length es \<and> es ! i = Some r \<and> getPosition (h r) \<noteq> None
              \<and> getRemovableAtBoundary (h r) \<noteq> None
            \<longrightarrow> getBoundary (h r) \<noteq> None \<and> getRectangle (h r) \<noteq> None)
          \<longrightarrow> (\<exists>es'. BoundaryRemovalSystem_update h es = Inr es'))
       \<and> (\<forall>es'. BoundaryRemovalSystem_update h es = Inr es' \<longrightarrow>
            (es' ! k = None \<longleftrightarrow> y < by \<or> y + ht > by + bh \<or> x < bx \<or> x + w > bx + bw)
          \<and> (es' ! k \<noteq> None \<longrightarrow> es' ! k = Some r))"
proof (intro conjI impI allI)
  assume "\<forall>i r. i < length es \<and> es ! i = Some r \<and> getPosition (h r) \<noteq> None
              \<and> getRemovableAtBoundary (h r) \<noteq> None
            \<longrightarrow> getBoundary (h r) \<noteq> None \<and> getRectangle (h r) \<noteq> None"
  then show "\<exists>es'. BoundaryRemovalSystem_update h es = Inr es'"
    unfolding BoundaryRemovalSystem_update_def
    by (rule BoundaryRemovalSystem_forEach_total) simp
next
  fix es'
  assume "BoundaryRemovalSystem_update h es = Inr es'"
  then have run: "BoundaryRemovalSystem_forEach h [0..<length es] es = Inr es'"
    by (simp add: BoundaryRemovalSystem_update_def)
  have slot: "es' ! k = (if k \<in> set [0..<length es] \<and> (y < by \<or> y + ht > by + bh \<or> x < bx \<or> x + w > bx + bw)
                    then None else Some r)"
    by (rule BoundaryRemovalSystem_forEach_slot [OF run _ assms]) simp
  with assms(1) show "es' ! k = None \<longleftrightarrow> y < by \<or> y + ht > by + bh \<or> x < bx \<or> x + w > bx + bw"
    by simp
  from slot show "es' ! k \<noteq> None \<Longrightarrow> es' ! k = Some r" by (simp split: if_splits)
qed

theorem BoundaryRemovalSystem_removes_witness:
  "BoundaryRemovalSystem_update bullet_heap [Some 0, None, Some 1] = Inr [None, None, Some 1]"
proof -
  have run: "BoundaryRemovalSystem_update bullet_heap [Some 0, None, Some 1] = Inr [None, None, Some 1]"
    by (simp add: BoundaryRemovalSystem_update_def BoundaryRemovalSystem_callback_def
        bullet_heap_def upt_rec)
  have c0: "getPosition (bullet_heap 0) = Some (100, -2)" "getRectangle (bullet_heap 0) = Some (4, 8)"
    "getRemovableAtBoundary (bullet_heap 0) = Some ()" "getBoundary (bullet_heap 0) = Some (0, 0, 400, 600)"
    by (simp_all add: bullet_heap_def)
  have c1: "getPosition (bullet_heap 1) = Some (100, 300)" "getRectangle (bullet_heap 1) = Some (4, 8)"
    "getRemovableAtBoundary (bullet_heap 1) = Some ()" "getBoundary (bullet_heap 1) = Some (0, 0, 400, 600)"
    by (simp_all add: bullet_heap_def)
  from BoundaryRemovalSystem_removes [of 0 "[Some 0, None, Some 1]" 0 bullet_heap, OF _ _ c0]
  have "\<forall>es'. BoundaryRemovalSystem_update bullet_heap [Some 0, None, Some 1] = Inr es' \<longrightarrow> es' ! 0 = None"
    by simp
  moreover
  from BoundaryRemovalSystem_removes [of 2 "[Some 0, None, Some 1]" 1 bullet_heap, OF _ _ c1]
  have "\<forall>es'. BoundaryRemovalSystem_update bullet_heap [Some 0, None, Some 1] = Inr es' \<longrightarrow> es' ! 2 = Some 1"
    by simp
  ultimately show ?thesis using run by simp
qed

text \<open>
  C3 against the code: a \<^verbatim>\<open>BoundaryRemovalSystem\<close> pass over an entity with Position and
  RemovableAtBoundary but no Boundary reads \<^verbatim>\<open>boundary.y\<close> of \<^verbatim>\<open>undefined\<close> and throws; so
  does a pass over one that has a Boundary but no Rectangle, once \<^verbatim>\<open>position.y < boundary.y\<close>
  is false and \<^verbatim>\<open>rectangle.height\<close> is read.
\<close>

theorem BoundaryRemovalSystem_missing_component_throws:
  "BoundaryRemovalSystem_update bullet_heap [Some 2] = Inl TypeError
   \<and> BoundaryRemovalSystem_update bullet_heap [Some 3] = Inl TypeError"
  by (simp add: BoundaryRemovalSystem_update_def BoundaryRemovalSystem_callback_def
      bullet_heap_def)

section \<open>Collision\<close>

lemma overlap_sym: "overlap p r p' r' \<longleftrightarrow> overlap p' r' p r"
  by (auto simp: overlap_def)

lemma collides_sym: "collides h a b \<longleftrightarrow> collides h b a"
  using overlap_sym by (auto simp: collides_def split: option.splits)

lemma collides_irrefl: "\<not> collides h a a"
  by (simp add: collides_def)

lemma CollisionSystem_inner_eq:
  assumes "getPosition (h e) = Some p" and "getRectangle (h e) = Some r"
  shows "CollisionSystem_inner h e p r j i es =
     (case es ! i of None \<Rightarrow> es
      | Some other \<Rightarrow> if collides h e other then es[i := None, j := None] else es)"
  using assms by (auto simp: CollisionSystem_inner_def collides_def split: option.splits)

lemma tombstones_stay:
  "k < length es \<Longrightarrow> es ! k = None \<Longrightarrow> es[i := None, j := None] ! k = None"
  by (cases "k = j"; cases "k = i") simp_all

lemma tombstones_only:
  "k < length es \<Longrightarrow> es[i := None, j := None] ! k = Some c \<Longrightarrow> es ! k = Some c"
  by (cases "k = j"; cases "k = i") simp_all

lemma CollisionSystem_inner_length:
  "length (CollisionSystem_inner h e p r j i es) = length es"
  by (simp add: CollisionSystem_inner_def split: option.splits)

lemma CollisionSystem_inner_None:
  "k < length es \<Longrightarrow> es ! k = None \<Longrightarrow> CollisionSystem_inner h e p r j i es ! k = None"
  by (simp add: CollisionSystem_inner_def tombstones_stay split: option.splits)

lemma CollisionSystem_scan_length:
  "length (fold (CollisionSystem_inner h e p r j) is es) = length es"
  by (induction "is" arbitrary: es) (simp_all add: CollisionSystem_inner_length)

lemma CollisionSystem_scan_None:
  "k < length es \<Longrightarrow> es ! k = None \<Longrightarrow> fold (CollisionSystem_inner h e p r j) is es ! k = None"
  by (induction "is" arbitrary: es)
     (simp_all add: CollisionSystem_inner_length CollisionSystem_inner_None)

lemma CollisionSystem_outer_length: "length (CollisionSystem_outer h j es) = length es"
  by (simp add: CollisionSystem_outer_def CollisionSystem_scan_length split: option.splits)

lemma CollisionSystem_outer_None:
  "k < length es \<Longrightarrow> es ! k = None \<Longrightarrow> CollisionSystem_outer h j es ! k = None"
  by (simp add: CollisionSystem_outer_def CollisionSystem_scan_None split: option.splits)

lemma CollisionSystem_pass_length: "length (fold (CollisionSystem_outer h) js es) = length es"
  by (induction js arbitrary: es) (simp_all add: CollisionSystem_outer_length)

lemma CollisionSystem_pass_None:
  "k < length es \<Longrightarrow> es ! k = None \<Longrightarrow> fold (CollisionSystem_outer h) js es ! k = None"
  by (induction js arbitrary: es)
     (simp_all add: CollisionSystem_outer_length CollisionSystem_outer_None)

text \<open>
  C1 fails as stated for the subject of the outer iteration in progress: it was read
  before the inner scan and is not read again. Entity 0 overlaps entities 1 and 2, which
  do not overlap each other. The inner callback at index 1 tombstones slots 1 and 0; the
  inner callback at index 2, a later comparison of the same outer iteration, still
  compares entity 2 with the tombstoned subject and tombstones slot 2.
\<close>

theorem CollisionSystem_subject_keeps_colliding:
  "CollisionSystem_inner trio_heap 0 (0, 0) (10, 10) 0 1 [Some 0, Some 1, Some 2]
     = [None, None, Some 2]
   \<and> CollisionSystem_inner trio_heap 0 (0, 0) (10, 10) 0 2 [None, None, Some 2]
     = [None, None, None]
   \<and> CollisionSystem_update trio_heap [Some 0, Some 1, Some 2] = [None, None, None]
   \<and> \<not> collides trio_heap 1 2 \<and> \<not> collides trio_heap 2 1"
  by (simp add: CollisionSystem_update_def CollisionSystem_outer_def CollisionSystem_inner_def
      collides_def whitelisted_def overlap_def trio_heap_def)

lemma CollisionSystem_scan_result:
  assumes j: "j < length es" and sub: "es ! j = Some e"
    and c: "getPosition (h e) = Some p" "getRectangle (h e) = Some r"
    and m: "m \<le> length es"
  shows "length (fold (CollisionSystem_inner h e p r j) [0..<m] es) = length es
    \<and> (\<forall>k < length es.
          fold (CollisionSystem_inner h e p r j) [0..<m] es ! k =
            (if (k < m \<and> (\<exists>other. es ! k = Some other \<and> collides h e other))
                \<or> (k = j \<and> (\<exists>i < m. \<exists>other. es ! i = Some other \<and> collides h e other))
             then None else es ! k))"
  using m
proof (induction m)
  case 0
  show ?case by simp
next
  case (Suc m)
  let ?f = "CollisionSystem_inner h e p r j"
  let ?C = "\<lambda>i. \<exists>other. es ! i = Some other \<and> collides h e other"
  define cur where "cur = fold ?f [0..<m] es"
  from Suc have len: "length cur = length es"
    and inv: "\<forall>k < length es. cur ! k =
            (if (k < m \<and> ?C k) \<or> (k = j \<and> (\<exists>i < m. ?C i)) then None else es ! k)"
    and mlt: "m < length es"
    unfolding cur_def by simp_all
  have eq: "?f i s = (case s ! i of None \<Rightarrow> s
      | Some other \<Rightarrow> if collides h e other then s[i := None, j := None] else s)" for i s
    using c by (rule CollisionSystem_inner_eq [of h e p r])
  have notj: "\<not> ?C j" using sub by (simp add: collides_irrefl)
  have step: "fold ?f [0..<Suc m] es = ?f m cur" by (simp add: cur_def)
  show ?case
  proof (cases "?C m")
    case False
    have "?f m cur = cur"
    proof (cases "m = j")
      case True
      with inv mlt sub have "cur ! m = None \<or> cur ! m = Some e" by auto
      then show ?thesis by (auto simp: eq collides_irrefl)
    next
      case neq: False
      with inv mlt have "cur ! m = es ! m" by simp
      with False show ?thesis by (cases "es ! m") (simp_all add: eq)
    qed
    moreover have "(k < Suc m \<and> ?C k) = (k < m \<and> ?C k)" for k
      using False by (auto simp: less_Suc_eq)
    moreover have "(\<exists>i < Suc m. ?C i) = (\<exists>i < m. ?C i)"
      using False by (auto simp: less_Suc_eq)
    ultimately show ?thesis using len inv unfolding step by simp
  next
    case True
    then obtain other where o: "es ! m = Some other" "collides h e other" by blast
    from True notj have mj: "m \<noteq> j" by auto
    with inv mlt have "cur ! m = es ! m" by simp
    with o have upd: "?f m cur = cur[m := None, j := None]" by (simp add: eq)
    have ex: "\<exists>i < Suc m. ?C i" using True by blast
    have "cur[m := None, j := None] ! k =
            (if (k < Suc m \<and> ?C k) \<or> (k = j \<and> (\<exists>i < Suc m. ?C i)) then None else es ! k)"
      if k: "k < length es" for k
    proof (cases "k = j")
      case True
      with k len ex show ?thesis by simp
    next
      case kj: False
      show ?thesis
      proof (cases "k = m")
        case True
        with kj k len \<open>?C m\<close> show ?thesis by simp
      next
        case False
        with kj have "cur[m := None, j := None] ! k = cur ! k" by simp
        moreover from False have "(k < Suc m \<and> ?C k) = (k < m \<and> ?C k)"
          by (auto simp: less_Suc_eq)
        ultimately show ?thesis using inv k kj by simp
      qed
    qed
    with len show ?thesis unfolding step upd by simp
  qed
qed

lemma CollisionSystem_outer_result:
  assumes "j < length es" and "es ! j = Some e"
    and "getPosition (h e) = Some p" and "getRectangle (h e) = Some r"
    and "k < length es"
  shows "CollisionSystem_outer h j es ! k =
            (if (\<exists>other. es ! k = Some other \<and> collides h e other)
                \<or> (k = j \<and> (\<exists>i < length es. \<exists>other. es ! i = Some other \<and> collides h e other))
             then None else es ! k)"
proof -
  have "CollisionSystem_outer h j es = fold (CollisionSystem_inner h e p r j) [0..<length es] es"
    using assms(2-4) by (simp add: CollisionSystem_outer_def)
  moreover have "length es \<le> length es" by simp
  note CollisionSystem_scan_result [of j es e h p r "length es", OF assms(1,2,3,4) this]
  ultimately show ?thesis using assms(5) by simp
qed

text \<open>
  C1, amended. During one \<^verbatim>\<open>CollisionSystem\<close> pass a comparison that reads a tombstoned
  slot skips it: the inner callback at a tombstoned index \<open>i\<close> and the outer callback at a
  tombstoned index \<open>j\<close> leave the slots as they are. A tombstoned slot stays tombstoned
  through any later inner callbacks of the same outer iteration, any subsequent outer
  iterations, and so to the end of the pass. The subject of the outer iteration in progress
  is not read again: an inner callback that finds a live entity colliding with the subject
  tombstones that entity's slot and slot \<open>j\<close>, whatever slot \<open>j\<close> holds by then. So one
  outer iteration tombstones the slot of every entity that collides with its subject,
  tombstones the subject's slot when there is at least one, and leaves every other slot
  as it was.
\<close>

theorem CollisionSystem_tombstone_skipped:
  "(es ! i = None \<longrightarrow> CollisionSystem_inner h entity position rectangle j i es = es)
   \<and> (es ! j = None \<longrightarrow> CollisionSystem_outer h j es = es)
   \<and> (k < length es \<and> es ! k = None \<longrightarrow>
        fold (CollisionSystem_inner h entity position rectangle j) later es ! k = None
      \<and> fold (CollisionSystem_outer h) subsequent es ! k = None
      \<and> CollisionSystem_update h es ! k = None)
   \<and> (getPosition (h entity) = Some position \<and> getRectangle (h entity) = Some rectangle
        \<and> es ! i = Some other \<and> collides h entity other
      \<longrightarrow> CollisionSystem_inner h entity position rectangle j i es = es[i := None, j := None])
   \<and> (j < length es \<and> es ! j = Some entity
        \<and> getPosition (h entity) = Some position \<and> getRectangle (h entity) = Some rectangle
        \<and> k < length es
      \<longrightarrow> CollisionSystem_outer h j es ! k =
            (if (\<exists>other. es ! k = Some other \<and> collides h entity other)
                \<or> (k = j \<and> (\<exists>i < length es. \<exists>other.
                               es ! i = Some other \<and> collides h entity other))
             then None else es ! k))"
proof (intro conjI impI)
  show "es ! i = None \<Longrightarrow> CollisionSystem_inner h entity position rectangle j i es = es"
    by (simp add: CollisionSystem_inner_def)
  show "es ! j = None \<Longrightarrow> CollisionSystem_outer h j es = es"
    by (simp add: CollisionSystem_outer_def)
  show "k < length es \<and> es ! k = None \<Longrightarrow>
      fold (CollisionSystem_inner h entity position rectangle j) later es ! k = None"
    by (simp add: CollisionSystem_scan_None)
  show "k < length es \<and> es ! k = None \<Longrightarrow> fold (CollisionSystem_outer h) subsequent es ! k = None"
    by (simp add: CollisionSystem_pass_None)
  show "k < length es \<and> es ! k = None \<Longrightarrow> CollisionSystem_update h es ! k = None"
    by (simp add: CollisionSystem_update_def CollisionSystem_pass_None)
  show "getPosition (h entity) = Some position \<and> getRectangle (h entity) = Some rectangle
        \<and> es ! i = Some other \<and> collides h entity other
      \<Longrightarrow> CollisionSystem_inner h entity position rectangle j i es = es[i := None, j := None]"
    using CollisionSystem_inner_eq [of h entity position rectangle j i es] by simp
  show "j < length es \<and> es ! j = Some entity
        \<and> getPosition (h entity) = Some position \<and> getRectangle (h entity) = Some rectangle
        \<and> k < length es
      \<Longrightarrow> CollisionSystem_outer h j es ! k =
            (if (\<exists>other. es ! k = Some other \<and> collides h entity other)
                \<or> (k = j \<and> (\<exists>i < length es. \<exists>other.
                               es ! i = Some other \<and> collides h entity other))
             then None else es ! k)"
    using CollisionSystem_outer_result [of j es entity h position rectangle k] by blast
qed

theorem CollisionSystem_tombstone_skipped_witness:
  "CollisionSystem_inner trio_heap 1 (1, 1) (2, 2) 0 0 [None, Some 1, Some 0] = [None, Some 1, Some 0]
   \<and> CollisionSystem_outer trio_heap 0 [None, Some 1, Some 0] = [None, Some 1, Some 0]
   \<and> CollisionSystem_update trio_heap [None, Some 1, Some 0] ! 0 = None
   \<and> CollisionSystem_inner trio_heap 0 (0, 0) (10, 10) 0 2 [None, None, Some 2] = [None, None, None]
   \<and> CollisionSystem_outer trio_heap 0 [Some 0, Some 1, Some 2] ! 2 = None"
proof -
  have c: "collides trio_heap 0 2"
    by (simp add: collides_def whitelisted_def overlap_def trio_heap_def)
  have p: "getPosition (trio_heap 0) = Some (0, 0)" "getRectangle (trio_heap 0) = Some (10, 10)"
    by (simp_all add: trio_heap_def)
  from CollisionSystem_tombstone_skipped [where es = "[None, Some 1, Some 0]" and i = 0
      and h = trio_heap and entity = 1 and position = "(1, 1)" and rectangle = "(2, 2)"
      and j = 0 and k = 0 and later = "[1, 2]" and subsequent = "[1, 2]"]
  have a: "CollisionSystem_inner trio_heap 1 (1, 1) (2, 2) 0 0 [None, Some 1, Some 0] = [None, Some 1, Some 0]
   \<and> CollisionSystem_outer trio_heap 0 [None, Some 1, Some 0] = [None, Some 1, Some 0]
   \<and> CollisionSystem_update trio_heap [None, Some 1, Some 0] ! 0 = None"
    by simp
  from c p CollisionSystem_tombstone_skipped [where es = "[None, None, Some 2]" and i = 2
      and h = trio_heap and entity = 0 and position = "(0, 0)" and rectangle = "(10, 10)"
      and j = 0 and other = 2]
  have b: "CollisionSystem_inner trio_heap 0 (0, 0) (10, 10) 0 2 [None, None, Some 2]
      = [None, None, None]"
    by simp
  have "\<exists>other. [Some 0, Some 1, Some (2::nat)] ! 2 = Some other \<and> collides trio_heap 0 other"
    using c by simp
  with p CollisionSystem_tombstone_skipped [where es = "[Some 0, Some 1, Some 2]"
      and h = trio_heap and entity = 0 and position = "(0, 0)" and rectangle = "(10, 10)"
      and j = 0 and k = 2]
  have d: "CollisionSystem_outer trio_heap 0 [Some 0, Some 1, Some 2] ! 2 = None"
    by simp
  from a b d show ?thesis by simp
qed

text \<open>
  An entity that collides with no entity in the slots keeps its slot through the pass:
  the slots only ever lose entities, so it collides with none of those left either.
\<close>

lemma CollisionSystem_inner_keeps:
  assumes "getPosition (h e) = Some p" and "getRectangle (h e) = Some r"
    and "\<not> collides h e a" and "j = k \<longrightarrow> e = a"
    and "length es = n \<and> es ! k = Some a
         \<and> (\<forall>i c. i < length es \<and> es ! i = Some c \<longrightarrow> \<not> collides h a c)"
    and "k < n" and "i < n"
  shows "length (CollisionSystem_inner h e p r j i es) = n
       \<and> CollisionSystem_inner h e p r j i es ! k = Some a
       \<and> (\<forall>i' c. i' < length (CollisionSystem_inner h e p r j i es)
              \<and> CollisionSystem_inner h e p r j i es ! i' = Some c \<longrightarrow> \<not> collides h a c)"
proof (cases "es ! i")
  case None
  with assms show ?thesis by (simp add: CollisionSystem_inner_eq)
next
  case (Some other)
  show ?thesis
  proof (cases "collides h e other")
    case False
    with Some assms show ?thesis by (simp add: CollisionSystem_inner_eq)
  next
    case True
    have "i \<noteq> k" using True Some assms(3,5) by auto
    moreover have "j \<noteq> k"
    proof
      assume "j = k"
      with assms(4) have "e = a" by simp
      with True have "collides h a other" by simp
      with Some assms(5,7) show False by blast
    qed
    ultimately have kept: "es[i := None, j := None] ! k = Some a"
      using assms(5) by simp
    have "CollisionSystem_inner h e p r j i es =
        (case es ! i of None \<Rightarrow> es
         | Some other \<Rightarrow> if collides h e other then es[i := None, j := None] else es)"
      using assms(1,2) by (rule CollisionSystem_inner_eq [of h e p r])
    with True Some have upd: "CollisionSystem_inner h e p r j i es = es[i := None, j := None]"
      by simp
    have safe: "\<not> collides h a c"
      if "i' < length es" and "es[i := None, j := None] ! i' = Some c" for i' c
    proof -
      from that have "es ! i' = Some c" by (rule tombstones_only)
      with that(1) assms(5) show ?thesis by blast
    qed
    from kept assms(5) safe show ?thesis unfolding upd by auto
  qed
qed

lemma CollisionSystem_outer_keeps:
  assumes "length es = n \<and> es ! k = Some a
         \<and> (\<forall>i c. i < length es \<and> es ! i = Some c \<longrightarrow> \<not> collides h a c)"
    and "k < n" and "j < n"
  shows "length (CollisionSystem_outer h j es) = n
       \<and> CollisionSystem_outer h j es ! k = Some a
       \<and> (\<forall>i c. i < length (CollisionSystem_outer h j es)
              \<and> CollisionSystem_outer h j es ! i = Some c \<longrightarrow> \<not> collides h a c)"
proof (cases "es ! j")
  case None
  with assms show ?thesis by (simp add: CollisionSystem_outer_def)
next
  case (Some e)
  show ?thesis
  proof (cases "getPosition (h e) = None \<or> getRectangle (h e) = None")
    case True
    with Some assms show ?thesis
      by (auto simp: CollisionSystem_outer_def split: option.splits)
  next
    case False
    then obtain p r where c: "getPosition (h e) = Some p" "getRectangle (h e) = Some r"
      by auto
    from Some assms have "\<not> collides h a e" by blast
    then have nc: "\<not> collides h e a" by (simp add: collides_sym)
    from Some assms have same: "j = k \<longrightarrow> e = a" by auto
    have "length (fold (CollisionSystem_inner h e p r j) [0..<n] es) = n
       \<and> fold (CollisionSystem_inner h e p r j) [0..<n] es ! k = Some a
       \<and> (\<forall>i c. i < length (fold (CollisionSystem_inner h e p r j) [0..<n] es)
              \<and> fold (CollisionSystem_inner h e p r j) [0..<n] es ! i = Some c
            \<longrightarrow> \<not> collides h a c)"
    proof (rule fold_invariant [where Q = "\<lambda>i. i < n"])
      show "\<And>x. x \<in> set [0..<n] \<Longrightarrow> x < n" by simp
      show "length es = n \<and> es ! k = Some a
         \<and> (\<forall>i c. i < length es \<and> es ! i = Some c \<longrightarrow> \<not> collides h a c)"
        by (rule assms(1))
      show "\<And>x s. x < n \<Longrightarrow>
        length s = n \<and> s ! k = Some a
          \<and> (\<forall>i c. i < length s \<and> s ! i = Some c \<longrightarrow> \<not> collides h a c) \<Longrightarrow>
        length (CollisionSystem_inner h e p r j x s) = n
          \<and> CollisionSystem_inner h e p r j x s ! k = Some a
          \<and> (\<forall>i c. i < length (CollisionSystem_inner h e p r j x s)
                 \<and> CollisionSystem_inner h e p r j x s ! i = Some c \<longrightarrow> \<not> collides h a c)"
        using assms(2) by (intro CollisionSystem_inner_keeps [of h e p r a j k _ n] c nc same) simp_all
    qed
    with Some c assms(1) show ?thesis by (simp add: CollisionSystem_outer_def)
  qed
qed

lemma CollisionSystem_update_keeps:
  assumes "k < length es" and "es ! k = Some a"
    and "\<forall>i c. i < length es \<and> es ! i = Some c \<longrightarrow> \<not> collides h a c"
  shows "CollisionSystem_update h es ! k = Some a"
proof -
  have "length (fold (CollisionSystem_outer h) [0..<length es] es) = length es
       \<and> fold (CollisionSystem_outer h) [0..<length es] es ! k = Some a
       \<and> (\<forall>i c. i < length (fold (CollisionSystem_outer h) [0..<length es] es)
              \<and> fold (CollisionSystem_outer h) [0..<length es] es ! i = Some c
            \<longrightarrow> \<not> collides h a c)"
  proof (rule fold_invariant [where Q = "\<lambda>i. i < length es"])
    show "\<And>x. x \<in> set [0..<length es] \<Longrightarrow> x < length es" by simp
    show "length es = length es \<and> es ! k = Some a
         \<and> (\<forall>i c. i < length es \<and> es ! i = Some c \<longrightarrow> \<not> collides h a c)"
      using assms by simp
    show "\<And>x s. x < length es \<Longrightarrow>
        length s = length es \<and> s ! k = Some a
          \<and> (\<forall>i c. i < length s \<and> s ! i = Some c \<longrightarrow> \<not> collides h a c) \<Longrightarrow>
        length (CollisionSystem_outer h x s) = length es
          \<and> CollisionSystem_outer h x s ! k = Some a
          \<and> (\<forall>i c. i < length (CollisionSystem_outer h x s)
                 \<and> CollisionSystem_outer h x s ! i = Some c \<longrightarrow> \<not> collides h a c)"
      by (rule CollisionSystem_outer_keeps [OF _ assms(1)])
  qed
  then show ?thesis by (simp add: CollisionSystem_update_def)
qed




lemma fold_noop: "(\<And>x. x \<in> set xs \<Longrightarrow> f x s = s) \<Longrightarrow> fold f xs s = s"
  by (induction xs) simp_all

lemma upt_split_at: "i < n \<Longrightarrow> [0..<n] = [0..<i] @ i # [Suc i..<n]"
  using upt_add_eq_append [of 0 i "n - i"] by (simp add: upt_conv_Cons)

lemma CollisionSystem_pair_scan:
  assumes "j < length es" and "i < length es"
    and "es ! j = Some x" and "es ! i = Some y"
    and "\<forall>m < length es. m \<noteq> i \<and> m \<noteq> j \<longrightarrow> es ! m = None"
    and "collides h x y"
    and "getPosition (h x) = Some p" and "getRectangle (h x) = Some r"
  shows "fold (CollisionSystem_inner h x p r j) [0..<length es] es = es[i := None, j := None]"
proof -
  let ?f = "CollisionSystem_inner h x p r j"
  have eq: "?f m s = (case s ! m of None \<Rightarrow> s
      | Some other \<Rightarrow> if collides h x other then s[m := None, j := None] else s)" for m s
    using assms(7,8) by (rule CollisionSystem_inner_eq [of h x p r])
  have before: "?f m es = es" if "m \<in> set [0..<i]" for m
  proof (cases "m = j")
    case True
    with assms(3) show ?thesis by (simp add: eq collides_irrefl)
  next
    case False
    with that assms(2,5) have "es ! m = None" by simp
    then show ?thesis by (simp add: eq)
  qed
  have at: "?f i es = es[i := None, j := None]"
    using assms(4,6) by (simp add: eq)
  have after: "?f m (es[i := None, j := None]) = es[i := None, j := None]"
    if "m \<in> set [Suc i..<length es]" for m
  proof -
    from that have "m < length es" by simp
    with assms(1,2,5) have "es[i := None, j := None] ! m = None"
      by (cases "m = j"; cases "m = i") simp_all
    then show ?thesis by (simp add: eq)
  qed
  have b: "fold ?f [0..<i] es = es"
    by (rule fold_noop) (rule before)
  have a: "fold ?f [Suc i..<length es] (es[i := None, j := None]) = es[i := None, j := None]"
    by (rule fold_noop) (rule after)
  show ?thesis
    by (simp add: upt_split_at [OF assms(2)] b at a)
qed

lemma CollisionSystem_pair_pass:
  assumes "p < q" and "q < length es"
    and "es ! p = Some x" and "es ! q = Some y"
    and "\<forall>m < length es. m \<noteq> p \<and> m \<noteq> q \<longrightarrow> es ! m = None"
    and "collides h x y"
  shows "CollisionSystem_update h es = es[q := None, p := None]"
proof -
  let ?g = "CollisionSystem_outer h"
  from assms(6) obtain pos rect where
    c: "getPosition (h x) = Some pos" "getRectangle (h x) = Some rect"
    by (auto simp: collides_def split: option.splits)
  from assms(1,2) have plen: "p < length es" by simp
  have before: "?g m es = es" if "m \<in> set [0..<p]" for m
  proof -
    from that assms(1,2,5) have "es ! m = None" by simp
    then show ?thesis by (simp add: CollisionSystem_outer_def)
  qed
  have "\<forall>m < length es. m \<noteq> q \<and> m \<noteq> p \<longrightarrow> es ! m = None"
    using assms(5) by blast
  from CollisionSystem_pair_scan [of p es q x y h pos rect, OF plen assms(2,3,4) this assms(6) c]
  have at: "?g p es = es[q := None, p := None]"
    using assms(3) c by (simp add: CollisionSystem_outer_def)
  have after: "?g m (es[q := None, p := None]) = es[q := None, p := None]"
    if "m \<in> set [Suc p..<length es]" for m
  proof -
    from that have "m < length es" by simp
    with assms(1,2,5) have "es[q := None, p := None] ! m = None"
      by (cases "m = p"; cases "m = q") simp_all
    then show ?thesis by (simp add: CollisionSystem_outer_def)
  qed
  have b: "fold ?g [0..<p] es = es"
    by (rule fold_noop) (rule before)
  have a: "fold ?g [Suc p..<length es] (es[q := None, p := None]) = es[q := None, p := None]"
    by (rule fold_noop) (rule after)
  show ?thesis
    unfolding CollisionSystem_update_def
    by (simp add: upt_split_at [OF plen] b at a)
qed

text \<open>
  C5. In slots that hold exactly two entities, each with Position and Rectangle and
  neither on the other's whitelist, one \<^verbatim>\<open>CollisionSystem\<close> tick tombstones both slots when
  the rectangles overlap under the strict-inequality test, and changes nothing when they
  do not. The tick does not write to the store, so preserved entities are unchanged.
\<close>

theorem CollisionSystem_two_entities:
  assumes "p < length es" and "q < length es"
    and "es ! p = Some a" and "es ! q = Some b" and "a \<noteq> b"
    and "\<forall>m < length es. m \<noteq> p \<and> m \<noteq> q \<longrightarrow> es ! m = None"
    and "getPosition (h a) = Some pa" and "getRectangle (h a) = Some ra"
    and "getPosition (h b) = Some pb" and "getRectangle (h b) = Some rb"
    and "\<not> whitelisted h a b" and "\<not> whitelisted h b a"
  shows "(overlap pa ra pb rb \<longrightarrow> CollisionSystem_update h es = es[p := None, q := None])
       \<and> (\<not> overlap pa ra pb rb \<longrightarrow> CollisionSystem_update h es = es)"
proof (intro conjI impI)
  from assms(3-5) have pq: "p \<noteq> q" by auto
  have col: "collides h a b \<longleftrightarrow> overlap pa ra pb rb"
    using assms(5,7-12) by (simp add: collides_def)
  {
    assume "overlap pa ra pb rb"
    with col have ab: "collides h a b" by simp
    then have ba: "collides h b a" by (simp add: collides_sym)
    show "CollisionSystem_update h es = es[p := None, q := None]"
    proof (cases "p < q")
      case True
      from CollisionSystem_pair_pass [OF True assms(2,3,4,6) ab]
      show ?thesis using pq by (simp add: list_update_swap)
    next
      case False
      with pq have qp: "q < p" by simp
      have "\<forall>m < length es. m \<noteq> q \<and> m \<noteq> p \<longrightarrow> es ! m = None"
        using assms(6) by blast
      from CollisionSystem_pair_pass [OF qp assms(1,4,3) this ba]
      show ?thesis .
    qed
  }
  {
    assume "\<not> overlap pa ra pb rb"
    with col have ab: "\<not> collides h a b" by simp
    then have ba: "\<not> collides h b a" by (simp add: collides_sym)
    have live: "c = a \<or> c = b" if "i < length es" and "es ! i = Some c" for i c
      using that assms(3,4,6) by (cases "i = p"; cases "i = q") auto
    have sa: "\<forall>i c. i < length es \<and> es ! i = Some c \<longrightarrow> \<not> collides h a c"
      using live ab collides_irrefl by blast
    have sb: "\<forall>i c. i < length es \<and> es ! i = Some c \<longrightarrow> \<not> collides h b c"
      using live ba collides_irrefl by blast
    show "CollisionSystem_update h es = es"
    proof (rule nth_equalityI)
      show "length (CollisionSystem_update h es) = length es"
        by (simp add: CollisionSystem_update_def CollisionSystem_pass_length)
    next
      fix m
      assume "m < length (CollisionSystem_update h es)"
      then have m: "m < length es"
        by (simp add: CollisionSystem_update_def CollisionSystem_pass_length)
      show "CollisionSystem_update h es ! m = es ! m"
      proof (cases "es ! m")
        case None
        with m show ?thesis
          by (simp add: CollisionSystem_update_def CollisionSystem_pass_None)
      next
        case (Some c)
        with m live have "c = a \<or> c = b" by blast
        with Some m sa sb show ?thesis
          by (auto simp: CollisionSystem_update_keeps)
      qed
    qed
  }
qed

theorem CollisionSystem_two_entities_witness:
  "CollisionSystem_update fleet_heap [Some 0, None, Some 1] = [None, None, None]
   \<and> CollisionSystem_update trio_heap [None, Some 1, Some 2] = [None, Some 1, Some 2]"
proof -
  have a: "CollisionSystem_update fleet_heap [Some 0, None, Some 1]
      = [Some 0, None, Some 1][0 := None, 2 := None]"
    using CollisionSystem_two_entities [of 0 "[Some 0, None, Some 1]" 2 0 1 fleet_heap
        "(0, 0)" "(10, 10)" "(5, 5)" "(10, 10)"]
    by (simp add: fleet_heap_def whitelisted_def overlap_def less_Suc_eq nth_Cons')
  have b: "CollisionSystem_update trio_heap [None, Some 1, Some 2] = [None, Some 1, Some 2]"
    using CollisionSystem_two_entities [of 1 "[None, Some 1, Some 2]" 2 1 2 trio_heap
        "(1, 1)" "(2, 2)" "(6, 6)" "(2, 2)"]
    by (simp add: trio_heap_def whitelisted_def overlap_def less_Suc_eq nth_Cons')
  from a b show ?thesis by simp
qed

section \<open>Spawning\<close>

text \<open>The insertion loop of \<^verbatim>\<open>SpawnSystem\<close> is the slot reuse of \<^verbatim>\<open>World.addEntity\<close>.\<close>

lemma SpawnSystem_loop_addEntity: "SpawnSystem_loop i enemy es = addEntity_loop i enemy es"
proof (induction i enemy es rule: addEntity_loop.induct)
  case (1 i entity es)
  show ?case
    using 1 by (subst SpawnSystem_loop.simps, subst addEntity_loop.simps) auto
qed

lemma spawner_found:
  assumes "spawner_inv w sp c t"
  shows "List.find (\<lambda>slot. case slot of None \<Rightarrow> False
                             | Some r \<Rightarrow> getSpawn (objects w r) \<noteq> None) (entities w)
         = Some (Some sp)"
proof -
  from assms obtain m where m: "m < length (entities w)" "entities w ! m = Some sp"
    "\<forall>i < m. \<forall>r. entities w ! i = Some r \<longrightarrow> getSpawn (objects w r) = None"
    and sp: "getSpawn (objects w sp) = Some t"
    unfolding spawner_inv_def by blast
  have "\<forall>j < m. \<not> (case entities w ! j of None \<Rightarrow> False
                             | Some r \<Rightarrow> getSpawn (objects w r) \<noteq> None)"
    using m(3) by (auto split: option.splits)
  with m(1,2) sp show ?thesis
    unfolding find_Some_iff by (intro exI [of _ m]) simp
qed

lemma SpawnSystem_cooldown:
  assumes "spawner_inv w sp c t" and "now1 env - t < 100"
  shows "SpawnSystem_update env w = w"
proof -
  from assms(1) have "getSpawn (objects w sp) = Some t" "getCounter (objects w sp) = Some c"
    by (simp_all add: spawner_inv_def)
  with assms(2) show ?thesis
    by (simp add: SpawnSystem_update_def spawner_found [OF assms(1)])
qed

lemma SpawnSystem_eligible_eq:
  assumes "spawner_inv w sp c t" and "\<not> now1 env - t < 100"
  shows "SpawnSystem_update env w =
     (if (c + 1) mod 10 = 0
      then w\<lparr>objects := (objects w)
                 (sp := setCounter (c + 1) (setSpawn (now2 env) (objects w sp)),
                  nextRef w := EnemyShipAssemblage (random1 env * canvas_width env) 0 env),
              nextRef := nextRef w + 1,
              entities := addEntity (nextRef w) (entities w)\<rparr>
      else w\<lparr>objects := (objects w)
                 (sp := setCounter (c + 1) (setSpawn (now2 env) (objects w sp)))\<rparr>)"
proof -
  from assms(1) have "getSpawn (objects w sp) = Some t" "getCounter (objects w sp) = Some c"
    by (simp_all add: spawner_inv_def)
  with assms(2) show ?thesis
    by (simp add: SpawnSystem_update_def spawner_found [OF assms(1)] new_Entity_def
        SpawnSystem_loop_addEntity addEntity_def)
qed

lemma SpawnSystem_eligible_inv:
  assumes "spawner_inv w sp c t" and "\<not> now1 env - t < 100"
  shows "spawner_inv (SpawnSystem_update env w) sp (c + 1) (now2 env)"
proof -
  from assms(1) obtain m where m: "m < length (entities w)" "entities w ! m = Some sp"
    "\<forall>i < m. \<forall>r. entities w ! i = Some r \<longrightarrow> getSpawn (objects w r) = None"
    and sp: "getSpawn (objects w sp) = Some t" "getCounter (objects w sp) = Some c"
    and bound: "\<forall>r. Some r \<in> set (entities w) \<longrightarrow> r < nextRef w"
    unfolding spawner_inv_def by blast
  let ?e = "setCounter (c + 1) (setSpawn (now2 env) (objects w sp))"
  have e: "getSpawn ?e = Some (now2 env)" "getCounter ?e = Some (c + 1)"
    using sp
    by (simp_all add: getSpawn_setCounter getSpawn_setSpawn getCounter_setSpawn
        getCounter_setCounter)
  from m(1,2) have "Some sp \<in> set (entities w)" by (metis nth_mem)
  with bound have spn: "sp < nextRef w" by simp
  have before: "r \<noteq> sp" if "i < m" "entities w ! i = Some r" for i r
    using that m(3) sp(1) by auto
  show ?thesis
  proof (cases "(c + 1) mod 10 = 0")
    case False
    have "\<forall>i < m. \<forall>r. entities w ! i = Some r \<longrightarrow> getSpawn (((objects w)(sp := ?e)) r) = None"
      using m(3) before by simp
    with False m(1,2) e bound show ?thesis
      unfolding SpawnSystem_eligible_eq [OF assms] spawner_inv_def
      by (simp del: fun_upd_apply add: fun_upd_same) blast
  next
    case True
    let ?es = "addEntity (nextRef w) (entities w)"
    let ?E = "EnemyShipAssemblage (random1 env * canvas_width env) 0 env"
    let ?h = "(objects w)(sp := ?e, nextRef w := ?E)"
    from addEntity_slots [of "entities w" "nextRef w"]
    have len: "length (entities w) \<le> length ?es"
      and keep: "\<forall>i < length (entities w). entities w ! i \<noteq> None \<longrightarrow> ?es ! i = entities w ! i"
      and old: "\<forall>i < length (entities w). ?es ! i = entities w ! i \<or> ?es ! i = Some (nextRef w)"
      and sub: "set ?es \<subseteq> insert (Some (nextRef w)) (set (entities w))"
      by blast+
    have m': "m < length ?es" "?es ! m = Some sp"
      using m(1,2) len keep by auto
    have first: "getSpawn (?h r) = None" if "i < m" "?es ! i = Some r" for i r
    proof -
      from that(1) m(1) have "i < length (entities w)" by simp
      with old have "?es ! i = entities w ! i \<or> ?es ! i = Some (nextRef w)" by blast
      then show ?thesis
      proof
        assume "?es ! i = entities w ! i"
        with that have r: "entities w ! i = Some r" by simp
        with that(1) before have "r \<noteq> sp" by blast
        moreover from r \<open>i < length (entities w)\<close> have "Some r \<in> set (entities w)"
          by (metis nth_mem)
        with bound have "r \<noteq> nextRef w" by auto
        moreover from r that(1) m(3) have "getSpawn (objects w r) = None" by blast
        ultimately show ?thesis by simp
      next
        assume "?es ! i = Some (nextRef w)"
        with that have "r = nextRef w" by simp
        then show ?thesis by (simp add: getSpawn_EnemyShipAssemblage)
      qed
    qed
    have h_sp: "?h sp = ?e" using spn by simp
    have bound': "\<forall>r. Some r \<in> set ?es \<longrightarrow> r < nextRef w + 1"
      using sub bound by fastforce
    have "spawner_inv (w\<lparr>objects := ?h, nextRef := nextRef w + 1, entities := ?es\<rparr>)
            sp (c + 1) (now2 env)"
      unfolding spawner_inv_def
    proof (intro conjI)
      show "\<exists>m < length (entities (w\<lparr>objects := ?h, nextRef := nextRef w + 1, entities := ?es\<rparr>)).
        entities (w\<lparr>objects := ?h, nextRef := nextRef w + 1, entities := ?es\<rparr>) ! m = Some sp \<and>
        (\<forall>i < m. \<forall>r. entities (w\<lparr>objects := ?h, nextRef := nextRef w + 1, entities := ?es\<rparr>) ! i = Some r
           \<longrightarrow> getSpawn (objects (w\<lparr>objects := ?h, nextRef := nextRef w + 1, entities := ?es\<rparr>) r) = None)"
        using m' first by (intro exI [of _ m]) (simp del: fun_upd_apply)
      show "getSpawn (objects (w\<lparr>objects := ?h, nextRef := nextRef w + 1, entities := ?es\<rparr>) sp)
          = Some (now2 env)"
        using h_sp e(1) by (simp del: fun_upd_apply)
      show "getCounter (objects (w\<lparr>objects := ?h, nextRef := nextRef w + 1, entities := ?es\<rparr>) sp)
          = Some (c + 1)"
        using h_sp e(2) by (simp del: fun_upd_apply)
      show "\<forall>r. Some r \<in> set (entities (w\<lparr>objects := ?h, nextRef := nextRef w + 1, entities := ?es\<rparr>))
         \<longrightarrow> r < nextRef (w\<lparr>objects := ?h, nextRef := nextRef w + 1, entities := ?es\<rparr>)"
        using bound' by simp
    qed
    with True show ?thesis
      unfolding SpawnSystem_eligible_eq [OF assms] by simp
  qed
qed

lemma SpawnSystem_run_inv:
  assumes "spawner_inv w sp 0 0"
    and "\<forall>i < length envs.
           100 \<le> now1 (envs ! i) - (if i = 0 then 0 else now2 (envs ! (i - 1)))"
  shows "spawner_inv (fold SpawnSystem_update envs w) sp (int (length envs))
           (if envs = [] then 0 else now2 (last envs))"
  using assms(2)
proof (induction envs rule: rev_induct)
  case Nil
  from assms(1) show ?case by simp
next
  case (snoc env envs)
  have "\<forall>i < length envs.
           100 \<le> now1 (envs ! i) - (if i = 0 then 0 else now2 (envs ! (i - 1)))"
  proof (intro allI impI)
    fix i assume i: "i < length envs"
    then have "i < length (envs @ [env])" by simp
    with snoc.prems
    have "100 \<le> now1 ((envs @ [env]) ! i)
            - (if i = 0 then 0 else now2 ((envs @ [env]) ! (i - 1)))"
      by blast
    moreover from i have "i - 1 < length envs" by simp
    ultimately show "100 \<le> now1 (envs ! i) - (if i = 0 then 0 else now2 (envs ! (i - 1)))"
      using i by (cases "i = 0") (simp_all add: nth_append)
  qed
  then have inv: "spawner_inv (fold SpawnSystem_update envs w) sp (int (length envs))
           (if envs = [] then 0 else now2 (last envs))"
    by (rule snoc.IH)
  have "length envs < length (envs @ [env])" by simp
  with snoc.prems
  have "100 \<le> now1 ((envs @ [env]) ! length envs)
          - (if length envs = 0 then 0 else now2 ((envs @ [env]) ! (length envs - 1)))"
    by blast
  then have "\<not> now1 env - (if envs = [] then 0 else now2 (last envs)) < 100"
    by (cases "envs = []") (simp_all add: nth_append last_conv_nth)
  from SpawnSystem_eligible_inv [OF inv this] show ?case by (simp add: add.commute)
qed

text \<open>
  C10. A world whose first entity with a Spawn component is a fresh spawner (\<open>lastSpawn\<close>
  0, \<open>count\<close> 0) receives the calls \<open>envs\<close>, each at least 100ms after the \<open>lastSpawn\<close>
  written by the one before, so that each is eligible. Afterwards the counter is the
  number of calls. A further call within 100ms of the last eligible one changes nothing.
  A further eligible call increments the counter and stores its clock reading; when the
  counter reaches a multiple of 10 the slots become \<open>addEntity\<close> of one newly created
  entity, built by \<^verbatim>\<open>EnemyShipAssemblage\<close>, and otherwise the slots are unchanged.
\<close>

theorem SpawnSystem_cadence:
  assumes "List.find (\<lambda>slot. case slot of None \<Rightarrow> False
                              | Some r \<Rightarrow> getSpawn (objects w r) \<noteq> None) (entities w)
           = Some (Some sp)"
    and "getSpawn (objects w sp) = Some 0" and "getCounter (objects w sp) = Some 0"
    and "\<forall>r. Some r \<in> set (entities w) \<longrightarrow> r < nextRef w"
    and "\<forall>i < length envs.
           100 \<le> now1 (envs ! i) - (if i = 0 then 0 else now2 (envs ! (i - 1)))"
    and "w' = fold SpawnSystem_update envs w"
    and "t = (if envs = [] then 0 else now2 (last envs))"
    and "n = int (length envs)"
  shows "getCounter (objects w' sp) = Some n \<and> getSpawn (objects w' sp) = Some t
    \<and> (now1 env - t < 100 \<longrightarrow> SpawnSystem_update env w' = w')
    \<and> (\<not> now1 env - t < 100 \<longrightarrow>
          getCounter (objects (SpawnSystem_update env w') sp) = Some (n + 1)
        \<and> getSpawn (objects (SpawnSystem_update env w') sp) = Some (now2 env)
        \<and> entities (SpawnSystem_update env w') =
            (if (n + 1) mod 10 = 0 then addEntity (nextRef w') (entities w') else entities w')
        \<and> ((n + 1) mod 10 = 0 \<longrightarrow>
              Some (nextRef w') \<notin> set (entities w')
            \<and> objects (SpawnSystem_update env w') (nextRef w')
                = EnemyShipAssemblage (random1 env * canvas_width env) 0 env))"
proof -
  from assms(1) obtain m where m: "m < length (entities w)"
      "(case entities w ! m of None \<Rightarrow> False | Some r \<Rightarrow> getSpawn (objects w r) \<noteq> None)"
      "Some sp = entities w ! m"
      "\<forall>j < m. \<not> (case entities w ! j of None \<Rightarrow> False
                       | Some r \<Rightarrow> getSpawn (objects w r) \<noteq> None)"
    unfolding find_Some_iff by blast
  from m(4) have "\<forall>i < m. \<forall>r. entities w ! i = Some r \<longrightarrow> getSpawn (objects w r) = None"
    by (auto split: option.splits)
  with m(1,3) assms(2,3,4) have "spawner_inv w sp 0 0"
    unfolding spawner_inv_def by (intro conjI exI [of _ m]) simp_all
  from SpawnSystem_run_inv [OF this assms(5)]
  have inv: "spawner_inv w' sp n t" by (simp add: assms(6,7,8))
  then have c: "getCounter (objects w' sp) = Some n" "getSpawn (objects w' sp) = Some t"
    and bound: "\<forall>r. Some r \<in> set (entities w') \<longrightarrow> r < nextRef w'"
    by (simp_all add: spawner_inv_def)
  from bound have fresh: "Some (nextRef w') \<notin> set (entities w')" by auto
  have cool: "SpawnSystem_update env w' = w'" if "now1 env - t < 100"
    using inv that by (rule SpawnSystem_cooldown)
  {
    assume el: "\<not> now1 env - t < 100"
    from SpawnSystem_eligible_inv [OF inv el]
    have "getCounter (objects (SpawnSystem_update env w') sp) = Some (n + 1)"
      "getSpawn (objects (SpawnSystem_update env w') sp) = Some (now2 env)"
      by (simp_all add: spawner_inv_def)
    moreover have "entities (SpawnSystem_update env w') =
            (if (n + 1) mod 10 = 0 then addEntity (nextRef w') (entities w') else entities w')"
      unfolding SpawnSystem_eligible_eq [OF inv el] by simp
    moreover have "objects (SpawnSystem_update env w') (nextRef w')
                = EnemyShipAssemblage (random1 env * canvas_width env) 0 env"
      if "(n + 1) mod 10 = 0"
      unfolding SpawnSystem_eligible_eq [OF inv el] using that by simp
    ultimately have "getCounter (objects (SpawnSystem_update env w') sp) = Some (n + 1)
        \<and> getSpawn (objects (SpawnSystem_update env w') sp) = Some (now2 env)
        \<and> entities (SpawnSystem_update env w') =
            (if (n + 1) mod 10 = 0 then addEntity (nextRef w') (entities w') else entities w')
        \<and> ((n + 1) mod 10 = 0 \<longrightarrow>
              Some (nextRef w') \<notin> set (entities w')
            \<and> objects (SpawnSystem_update env w') (nextRef w')
                = EnemyShipAssemblage (random1 env * canvas_width env) 0 env)"
      using fresh by simp
  }
  with c cool show ?thesis by blast
qed

lemma nine_calls_run:
  "nextRef (fold SpawnSystem_update nine_calls spawner_world) = 2
   \<and> entities (fold SpawnSystem_update nine_calls spawner_world) = [None, Some 1]"
  by (simp add: nine_calls_def spawner_world_def call_at_def SpawnSystem_update_def)

theorem SpawnSystem_cadence_witness:
  "getCounter (objects (fold SpawnSystem_update nine_calls spawner_world) 1) = Some 9
   \<and> SpawnSystem_update (call_at 1850) (fold SpawnSystem_update nine_calls spawner_world)
       = fold SpawnSystem_update nine_calls spawner_world
   \<and> entities (SpawnSystem_update (call_at 2000)
                 (fold SpawnSystem_update nine_calls spawner_world)) = [Some 2, Some 1]"
proof -
  have found: "List.find (\<lambda>slot. case slot of None \<Rightarrow> False
                  | Some r \<Rightarrow> getSpawn (objects spawner_world r) \<noteq> None)
                 (entities spawner_world) = Some (Some 1)"
    by (simp add: spawner_world_def)
  have fresh: "getSpawn (objects spawner_world 1) = Some 0"
    "getCounter (objects spawner_world 1) = Some 0"
    by (simp_all add: spawner_world_def)
  have alloc: "\<forall>r. Some r \<in> set (entities spawner_world) \<longrightarrow> r < nextRef spawner_world"
    by (simp add: spawner_world_def)
  have spaced: "\<forall>i < length nine_calls.
      100 \<le> now1 (nine_calls ! i) - (if i = 0 then 0 else now2 (nine_calls ! (i - 1)))"
    by (simp add: nine_calls_def call_at_def nth_Cons' less_Suc_eq numeral_eq_Suc All_less_Suc)
  have t: "(if nine_calls = [] then 0 else now2 (last nine_calls)) = 1801"
    by (simp add: nine_calls_def call_at_def)
  have n: "int (length nine_calls) = 9" by (simp add: nine_calls_def)
  note cadence = SpawnSystem_cadence [OF found fresh alloc spaced refl t [symmetric] n [symmetric]]
  from cadence [of "call_at 1850"] cadence [of "call_at 2000"] nine_calls_run
  show ?thesis by (simp add: call_at_def addEntity_def addEntity_loop.simps)
qed

end
